theory Spec2Isabelle
  imports Main "HOL-Library.Sublist"
begin

section \<open>Data model of \<open>image-uploader.tsx\<close>\<close>

text \<open>
  \<open>interface UploadedPhoto { url: string; caption?: string }\<close>. An absent caption is
  \<open>None\<close>.
\<close>

record UploadedPhoto =
  url :: string
  caption :: "string option"

text \<open>
  Photo objects are JavaScript objects: the arrays of the component hold references to
  them, and the caption handler assigns to a field of the referenced object. The model
  therefore keeps an explicit store. An address is an index into the store; an array
  element is a reference, or \<open>None\<close> for the value \<open>undefined\<close> (which a splice
  with an out-of-range source index puts into the array).
\<close>

type_synonym addr = nat
type_synonym slot = "addr option"

text \<open>The fields of a DOM \<open>File\<close> that the component reads.\<close>

record File =
  file_name :: string
  file_type :: string
  file_size :: nat

text \<open>
  What a \<open>catch\<close> clause can receive: an instance of \<open>Error\<close> with its message, or
  any other thrown value.
\<close>

datatype thrown = ErrorObj string | NonError

datatype js_error = TypeError

text \<open>
  The storage client is an external collaborator. \<open>upload\<close> resolves with
  \<open>{ error: null }\<close> (\<open>Resolved None\<close>) or \<open>{ error: { message } }\<close>, or the awaited
  promise rejects. \<open>getPublicUrl\<close> answers \<open>data.publicUrl\<close>, a string or absent.
  \<open>uuidv4\<close> is the k-th identifier drawn during a batch.
\<close>

datatype upload_response = Resolved "string option" | Rejected thrown

record storage =
  uuidv4 :: "nat \<Rightarrow> string"
  upload :: "string \<Rightarrow> File \<Rightarrow> upload_response"
  getPublicUrl :: "string \<Rightarrow> string option"

text \<open>
  The four \<open>useState\<close> cells of \<open>ImageUploader\<close>, the object store, and two logs of
  the effects on the outside: the arguments of every \<open>onUpload\<close> call, and the
  \<open>(path, file)\<close> of every upload sent to the storage service.
\<close>

record world =
  uploading :: bool
  error :: "string option"
  photos :: "slot list"
  imageUrl :: string
  heap :: "UploadedPhoto list"
  notified :: "slot list list"
  uploads :: "(string \<times> File) list"

text \<open>The photo list as values: every reference read through the store.\<close>

definition view :: "UploadedPhoto list \<Rightarrow> slot list \<Rightarrow> UploadedPhoto option list" where
  "view h xs = map (map_option (\<lambda>a. h ! a)) xs"

text \<open>Every reference of a list points into the store.\<close>

definition allocated :: "UploadedPhoto list \<Rightarrow> slot list \<Rightarrow> bool" where
  "allocated h xs = list_all (\<lambda>x. case x of None \<Rightarrow> True | Some a \<Rightarrow> a < length h) xs"

section \<open>The container's operations\<close>

subsection \<open>Seeding at mount (lines 130-140)\<close>

definition initial :: "UploadedPhoto list \<Rightarrow> world" where
  "initial h = \<lparr>uploading = False, error = None, photos = [], imageUrl = [],
     heap = h, notified = [], uploads = []\<rparr>"

text \<open>
  The prop \<open>existingPhotos\<close> defaults to \<open>[]\<close> when absent; the effect runs once after
  the first render.
\<close>

definition mount :: "slot list option \<Rightarrow> UploadedPhoto list \<Rightarrow> world" where
  "mount existingPhotosProp h =
     (let existingPhotos = (case existingPhotosProp of None \<Rightarrow> [] | Some xs \<Rightarrow> xs);
          s = initial h
      in if length existingPhotos > 0 then s\<lparr>photos := existingPhotos\<rparr> else s)"

subsection \<open>\<open>updatePhotos\<close> (lines 142-145)\<close>

text \<open>
  \<open>setPhotos(newPhotos); onUpload(newPhotos)\<close>. The parent's callback is an external
  function; it is taken to return normally, and its call is recorded in the log.
\<close>

definition updatePhotos :: "slot list \<Rightarrow> world \<Rightarrow> world" where
  "updatePhotos newPhotos s = s\<lparr>photos := newPhotos, notified := notified s @ [newPhotos]\<rparr>"

subsection \<open>\<open>uploadFiles\<close> (lines 147-198)\<close>

definition allowedTypes :: "string list" where
  "allowedTypes = [''image/jpeg'', ''image/png'', ''image/webp'']"

definition maxSize :: nat where
  "maxSize = 5 * 1024 * 1024"

text \<open>The \<open>filter\<close> callback of lines 151-161, with its \<open>setError\<close> calls.\<close>

fun validFiles :: "File list \<Rightarrow> world \<Rightarrow> File list \<times> world" where
  "validFiles [] s = ([], s)"
| "validFiles (file # files) s =
     (if file_type file \<notin> set allowedTypes then
        validFiles files (s\<lparr>error := Some (''Unsupported file type: '' @ file_name file)\<rparr>)
      else if file_size file > maxSize then
        validFiles files
          (s\<lparr>error := Some (''File too large: '' @ file_name file @ '' (Max: 5MB)'')\<rparr>)
      else (case validFiles files s of (vs, s') \<Rightarrow> (file # vs, s')))"

text \<open>
  The \<open>for\<close> loop of lines 169-186. \<open>k\<close> counts the identifiers drawn so far. A
  \<open>throw\<close> leaves the loop with \<open>Inl\<close>; the objects pushed before it stay in the store,
  unreachable.
\<close>

fun uploadLoop ::
  "storage \<Rightarrow> File list \<Rightarrow> nat \<Rightarrow> slot list \<Rightarrow> world \<Rightarrow> (thrown + slot list) \<times> world" where
  "uploadLoop st [] k uploadedPhotos s = (Inr uploadedPhotos, s)"
| "uploadLoop st (file # files) k uploadedPhotos s =
     (let fileName = uuidv4 st k @ ''_'' @ file_name file;
          filePath = fileName;
          s1 = s\<lparr>uploads := uploads s @ [(filePath, file)]\<rparr>
      in case upload st filePath file of
           Rejected t \<Rightarrow> (Inl t, s1)
         | Resolved (Some message) \<Rightarrow> (Inl (ErrorObj message), s1)
         | Resolved None \<Rightarrow>
             (case getPublicUrl st filePath of
                None \<Rightarrow> (Inl (ErrorObj ''Failed to retrieve public URL''), s1)
              | Some publicUrl \<Rightarrow>
                  if publicUrl = [] then (Inl (ErrorObj ''Failed to retrieve public URL''), s1)
                  else uploadLoop st files (Suc k)
                         (uploadedPhotos @ [Some (length (heap s1))])
                         (s1\<lparr>heap := heap s1 @ [\<lparr>url = publicUrl, caption = Some []\<rparr>]\<rparr>)))"

text \<open>The message the \<open>catch\<close> clause of lines 189-194 stores.\<close>

definition catchMessage :: "thrown \<Rightarrow> string" where
  "catchMessage uploadError =
     (case uploadError of ErrorObj message \<Rightarrow> message
      | NonError \<Rightarrow> ''An unknown error occurred'')"

text \<open>
  The handler, run from the render in which it was called to its end: \<open>photos\<close> in
  line 188 is the list of that render (\<open>photos s\<close>), whatever the awaited calls took.
  Every \<open>throw\<close> of the \<open>try\<close> block is taken by the \<open>catch\<close> clause and the
  \<open>finally\<close> clause runs on both paths, so the result is a state, never an exception.
\<close>

definition uploadFiles :: "storage \<Rightarrow> File list \<Rightarrow> world \<Rightarrow> world" where
  "uploadFiles st files s =
     (case validFiles files s of (valid, s1) \<Rightarrow>
        if length valid = 0 then s1
        else
          (case uploadLoop st valid 0 [] (s1\<lparr>uploading := True\<rparr>) of
             (Inr uploadedPhotos, s3) \<Rightarrow>
               (updatePhotos (photos s @ uploadedPhotos) s3)\<lparr>uploading := False\<rparr>
           | (Inl uploadError, s3) \<Rightarrow>
               s3\<lparr>error := Some (catchMessage uploadError), uploading := False\<rparr>))"

subsection \<open>\<open>handleImageUpload\<close> (lines 200-208)\<close>

definition handleImageUpload :: "storage \<Rightarrow> File list option \<Rightarrow> world \<Rightarrow> world" where
  "handleImageUpload st files s =
     (let s1 = s\<lparr>error := None\<rparr> in
      case files of
        None \<Rightarrow> s1\<lparr>error := Some ''Please select at least one file.''\<rparr>
      | Some fs \<Rightarrow>
          if length fs = 0 then s1\<lparr>error := Some ''Please select at least one file.''\<rparr>
          else uploadFiles st fs s1)"

subsection \<open>\<open>handleAddUrl\<close> (lines 210-220)\<close>

text \<open>
  \<open>new URL(text)\<close> is the platform's parser; \<open>parses\<close> says for which texts the
  constructor returns instead of throwing.
\<close>

definition handleAddUrl :: "(string \<Rightarrow> bool) \<Rightarrow> world \<Rightarrow> world" where
  "handleAddUrl parses s =
     (if imageUrl s = [] then s
      else if \<not> parses (imageUrl s) then s\<lparr>error := Some ''Invalid URL format.''\<rparr>
      else
        (updatePhotos (photos s @ [Some (length (heap s))])
           (s\<lparr>heap := heap s @ [\<lparr>url = imageUrl s, caption = Some []\<rparr>]\<rparr>))\<lparr>imageUrl := []\<rparr>)"

subsection \<open>\<open>Array.prototype.splice\<close> and \<open>movePhoto\<close> (lines 222-228)\<close>

text \<open>
  \<open>xs.splice(start, deleteCount, ...items)\<close> as ECMAScript defines it: a negative start
  counts from the end, both numbers are clamped to the array. The result is the pair of
  the removed elements and the array afterwards.
\<close>

definition splice :: "'a list \<Rightarrow> int \<Rightarrow> int \<Rightarrow> 'a list \<Rightarrow> 'a list \<times> 'a list" where
  "splice xs start deleteCount items =
     (let len = int (length xs);
          actualStart = nat (if start < 0 then max (len + start) 0 else min start len);
          actualDeleteCount = nat (min (max deleteCount 0) (len - int actualStart))
      in (take actualDeleteCount (drop actualStart xs),
          take actualStart xs @ items @ drop (actualStart + actualDeleteCount) xs))"

text \<open>\<open>const [moved] = removed\<close>, and \<open>removed[0]\<close>: \<open>undefined\<close> when nothing was removed.\<close>

definition firstOf :: "slot list \<Rightarrow> slot" where
  "firstOf removed = (case removed of [] \<Rightarrow> None | x # _ \<Rightarrow> x)"

definition movePhoto :: "int \<Rightarrow> int \<Rightarrow> world \<Rightarrow> world" where
  "movePhoto from to s =
     (if to < 0 \<or> to \<ge> int (length (photos s)) then s
      else
        (case splice (photos s) from 1 [] of (removed, updated1) \<Rightarrow>
           (case splice updated1 to 0 [firstOf removed] of (_, updated2) \<Rightarrow>
              updatePhotos updated2 s)))"

subsection \<open>\<open>handleDragEnd\<close> (lines 230-237)\<close>

text \<open>The decimal text of an index, as the template literal \<open>`photo-${i}`\<close> prints it.\<close>

definition digitChar :: "nat \<Rightarrow> char" where
  "digitChar d = ''0123456789'' ! d"

fun toDecimal :: "nat \<Rightarrow> string" where
  "toDecimal n = (if n < 10 then [digitChar n] else toDecimal (n div 10) @ [digitChar (n mod 10)])"

declare toDecimal.simps [simp del]

definition photoId :: "nat \<Rightarrow> string" where
  "photoId i = ''photo-'' @ toDecimal i"

text \<open>The drag library's \<open>UniqueIdentifier\<close> is \<open>string | number\<close>.\<close>

datatype UniqueIdentifier = IdString string | IdNumber int

text \<open>
  \<open>event.active.id\<close> and \<open>event.over?.id\<close>; the latter is \<open>undefined\<close> (\<open>None\<close>) when
  \<open>over\<close> is \<open>null\<close>, that is when the item is dropped outside every droppable target.
\<close>

record DragEndEvent =
  active_id :: UniqueIdentifier
  over_id :: "UniqueIdentifier option"

text \<open>\<open>xs.findIndex((_, i) => p(_, i))\<close>: the first index that satisfies \<open>p\<close>, or \<open>-1\<close>.\<close>

fun findIndexFrom :: "('a \<Rightarrow> nat \<Rightarrow> bool) \<Rightarrow> nat \<Rightarrow> 'a list \<Rightarrow> int" where
  "findIndexFrom p i [] = - 1"
| "findIndexFrom p i (x # xs) = (if p x i then int i else findIndexFrom p (Suc i) xs)"

definition findIndex :: "('a \<Rightarrow> nat \<Rightarrow> bool) \<Rightarrow> 'a list \<Rightarrow> int" where
  "findIndex p xs = findIndexFrom p 0 xs"

text \<open>
  Modelled from the spec: \<open>arrayMove\<close> is imported from the drag library
  (\<open>@dnd-kit/sortable\<close>) and its source is not part of the repository. The spec gives it
  "array move semantics: removes at source index, inserts at destination index, no other
  entries change relative order". The definition is the library's published function,
  which does exactly that with two splices of a copy:
  \<open>newArray.splice(to < 0 ? newArray.length + to : to, 0, newArray.splice(from, 1)[0])\<close>.
  The arguments are evaluated left to right, so the destination is computed from the
  length before the removal.
\<close>

definition arrayMove :: "slot list \<Rightarrow> int \<Rightarrow> int \<Rightarrow> slot list" where
  "arrayMove array from to =
     (let newArray = array;
          start = (if to < 0 then int (length newArray) + to else to)
      in case splice newArray from 1 [] of (removed, newArray1) \<Rightarrow>
           snd (splice newArray1 start 0 [firstOf removed]))"

definition handleDragEnd :: "DragEndEvent \<Rightarrow> world \<Rightarrow> world" where
  "handleDragEnd event s =
     (if Some (active_id event) \<noteq> over_id event then
        (let oldIndex = findIndex (\<lambda>_ i. IdString (photoId i) = active_id event) (photos s);
             newIndex = findIndex (\<lambda>_ i. Some (IdString (photoId i)) = over_id event) (photos s)
         in updatePhotos (arrayMove (photos s) oldIndex newIndex) s)
      else s)"

subsection \<open>\<open>removePhoto\<close> (lines 241-244)\<close>

definition removePhoto :: "int \<Rightarrow> world \<Rightarrow> world" where
  "removePhoto index s =
     updatePhotos (map snd (filter (\<lambda>(i, _). int i \<noteq> index) (enumerate 0 (photos s)))) s"

subsection \<open>The caption handler (lines 314-318)\<close>

text \<open>
  \<open>updated\<close> is a copy of the array, not of its objects: \<open>updated[index].caption = caption\<close>
  writes to the object that the state's array holds too. Reading a field of
  \<open>undefined\<close> (index out of range, or an \<open>undefined\<close> element) throws a \<open>TypeError\<close>
  before anything is stored.
\<close>

definition onCaptionChange :: "int \<Rightarrow> string \<Rightarrow> world \<Rightarrow> js_error + world" where
  "onCaptionChange index newCaption s =
     (let updated = photos s in
      case (if 0 \<le> index \<and> index < int (length updated) then updated ! nat index else None) of
        None \<Rightarrow> Inl TypeError
      | Some a \<Rightarrow>
          Inr (updatePhotos updated
                 (s\<lparr>heap := (heap s)[a := (heap s ! a)\<lparr>caption := Some newCaption\<rparr>]\<rparr>)))"

section \<open>Notions used in the statements\<close>

subsection \<open>Validation and the storage service's answers\<close>

text \<open>A file passes the two checks of the \<open>filter\<close> callback.\<close>

definition fileOk :: "File \<Rightarrow> bool" where
  "fileOk file = (file_type file \<in> set allowedTypes \<and> file_size file \<le> maxSize)"

text \<open>The message the callback stores for a file that does not pass.\<close>

definition validationMessage :: "File \<Rightarrow> string" where
  "validationMessage file =
     (if file_type file \<notin> set allowedTypes then ''Unsupported file type: '' @ file_name file
      else ''File too large: '' @ file_name file @ '' (Max: 5MB)'')"

text \<open>The error slot after the callback has run over a selection.\<close>

definition validationError :: "File list \<Rightarrow> string option \<Rightarrow> string option" where
  "validationError files e =
     (case filter (\<lambda>f. \<not> fileOk f) files of [] \<Rightarrow> e
      | r # rs \<Rightarrow> Some (validationMessage (last (r # rs))))"

text \<open>The storage key of the k-th uploaded file of a batch.\<close>

definition storageKey :: "storage \<Rightarrow> nat \<Rightarrow> File \<Rightarrow> string" where
  "storageKey st k file = uuidv4 st k @ ''_'' @ file_name file"

text \<open>The upload of the k-th file fails: the answer carries an error, or the promise rejects.\<close>

definition uploadFails :: "storage \<Rightarrow> nat \<Rightarrow> File \<Rightarrow> bool" where
  "uploadFails st k file = (upload st (storageKey st k file) file \<noteq> Resolved None)"

text \<open>The public-URL retrieval fails: the URL is absent or the empty string.\<close>

definition urlFails :: "storage \<Rightarrow> nat \<Rightarrow> File \<Rightarrow> bool" where
  "urlFails st k file =
     (case getPublicUrl st (storageKey st k file) of None \<Rightarrow> True | Some u \<Rightarrow> u = [])"

definition fileFails :: "storage \<Rightarrow> nat \<Rightarrow> File \<Rightarrow> bool" where
  "fileFails st k file = (uploadFails st k file \<or> urlFails st k file)"

text \<open>The message of the failure of the k-th file.\<close>

definition failureMessage :: "storage \<Rightarrow> nat \<Rightarrow> File \<Rightarrow> string" where
  "failureMessage st k file =
     (case upload st (storageKey st k file) file of
        Rejected t \<Rightarrow> catchMessage t
      | Resolved (Some message) \<Rightarrow> message
      | Resolved None \<Rightarrow> ''Failed to retrieve public URL'')"

text \<open>The public URL the service answers for the k-th file (the empty text when absent).\<close>

definition publicUrlOf :: "storage \<Rightarrow> nat \<Rightarrow> File \<Rightarrow> string" where
  "publicUrlOf st k file =
     (case getPublicUrl st (storageKey st k file) of None \<Rightarrow> [] | Some u \<Rightarrow> u)"

subsection \<open>Synchronisation with the parent\<close>

text \<open>
  One handler run from \<open>s\<close> to \<open>s'\<close> keeps the parent in step: either the list and
  the objects that existed are untouched and \<open>onUpload\<close> was not called, or it was called
  once, last, with the new internal list.
\<close>

definition synced :: "world \<Rightarrow> world \<Rightarrow> bool" where
  "synced s s' =
     ((notified s' = notified s \<and> photos s' = photos s \<and>
       take (length (heap s)) (heap s') = heap s)
      \<or> notified s' = notified s @ [photos s'])"

subsection \<open>Moving an entry\<close>

text \<open>The list with the entry at \<open>i\<close> taken out and put back at \<open>j\<close>.\<close>

definition moveEntry :: "'a list \<Rightarrow> nat \<Rightarrow> nat \<Rightarrow> 'a list" where
  "moveEntry xs i j =
     (let ys = take i xs @ drop (Suc i) xs in take j ys @ [xs ! i] @ drop j ys)"

text \<open>
  Repeated single-step moves, in the spec's words: the entry at \<open>i\<close> is moved one
  position at a time (the down button while \<open>i < j\<close>, the up button while \<open>j < i\<close>),
  each step a call of \<open>movePhoto\<close> on the entry's current position.
\<close>

function singleSteps :: "int \<Rightarrow> int \<Rightarrow> world \<Rightarrow> world" where
  "singleSteps i j s =
     (if i < j then singleSteps (i + 1) j (movePhoto i (i + 1) s)
      else if j < i then singleSteps (i - 1) j (movePhoto i (i - 1) s)
      else s)"
  by pat_completeness auto
termination
  by (relation "measure (\<lambda>(i, j, s). nat \<bar>i - j\<bar>)") auto

declare singleSteps.simps [simp del]

subsection \<open>Concrete inputs of the examples\<close>

definition demoStorage :: storage where
  "demoStorage =
     \<lparr>uuidv4 = (\<lambda>k. ''id'' @ replicate k CHR ''x''),
      upload = (\<lambda>path file.
         if file_name file = ''bad.png'' then Resolved (Some ''quota exceeded'') else Resolved None),
      getPublicUrl = (\<lambda>path. Some (''https://cdn.test/'' @ path))\<rparr>"

definition demoFile :: "string \<Rightarrow> string \<Rightarrow> nat \<Rightarrow> File" where
  "demoFile n t z = \<lparr>file_name = n, file_type = t, file_size = z\<rparr>"

definition demoPhoto :: "string \<Rightarrow> UploadedPhoto" where
  "demoPhoto u = \<lparr>url = u, caption = Some []\<rparr>"

section \<open>Seeding and adding by URL\<close>

text \<open>
  C10. Seeding at mount does not call \<open>onUpload\<close>: with a non-empty \<open>existingPhotos\<close>
  the internal list is exactly that list and the log of parent notifications is empty;
  with an empty or absent \<open>existingPhotos\<close> the internal list is empty. The store is
  not touched.
\<close>

theorem mount_is_silent:
  "(xs \<noteq> [] \<longrightarrow> photos (mount (Some xs) h) = xs \<and> notified (mount (Some xs) h) = []) \<and>
   photos (mount (Some []) h) = [] \<and> photos (mount None h) = [] \<and>
   notified (mount e h) = [] \<and> heap (mount e h) = h"
  by (simp add: mount_def initial_def Let_def split: option.split)

theorem mount_is_silent_witness:
  "photos (mount (Some [Some 0]) [\<lparr>url = ''https://x.test/1.jpg'', caption = None\<rparr>]) = [Some 0] \<and>
   notified (mount (Some [Some 0]) [\<lparr>url = ''https://x.test/1.jpg'', caption = None\<rparr>]) = []"
  using mount_is_silent [of "[Some 0]" "[\<lparr>url = ''https://x.test/1.jpg'', caption = None\<rparr>]"]
  by simp

text \<open>
  C4. Add by URL. With an empty text field the handler changes nothing. With a text the
  URL parser refuses, only the error slot changes, to "Invalid URL format."; the list
  and the text field stay. With a text that parses, one new object
  \<open>{url: text, caption: ""}\<close> is created and its reference appended to the list, the
  parent is called with the whole new list, and the text field is cleared.
\<close>

theorem handleAddUrl_cases:
  "(imageUrl s = [] \<longrightarrow> handleAddUrl parses s = s) \<and>
   (imageUrl s \<noteq> [] \<and> \<not> parses (imageUrl s) \<longrightarrow>
      handleAddUrl parses s = s\<lparr>error := Some ''Invalid URL format.''\<rparr>) \<and>
   (imageUrl s \<noteq> [] \<and> parses (imageUrl s) \<longrightarrow>
      (let s' = handleAddUrl parses s in
         photos s' = photos s @ [Some (length (heap s))] \<and>
         heap s' = heap s @ [\<lparr>url = imageUrl s, caption = Some []\<rparr>] \<and>
         notified s' = notified s @ [photos s'] \<and>
         imageUrl s' = [] \<and> error s' = error s \<and>
         uploading s' = uploading s \<and> uploads s' = uploads s))"
  by (simp add: handleAddUrl_def updatePhotos_def Let_def)

theorem handleAddUrl_cases_witness:
  "handleAddUrl (\<lambda>t. take 8 t = ''https://'') (initial []) = initial [] \<and>
   handleAddUrl (\<lambda>t. take 8 t = ''https://'') ((initial [])\<lparr>imageUrl := ''not a url''\<rparr>)
     = (initial [])\<lparr>imageUrl := ''not a url'', error := Some ''Invalid URL format.''\<rparr> \<and>
   handleAddUrl (\<lambda>t. take 8 t = ''https://'')
       ((initial [])\<lparr>imageUrl := ''https://example.com/a.jpg''\<rparr>)
     = (initial [\<lparr>url = ''https://example.com/a.jpg'', caption = Some []\<rparr>])
         \<lparr>photos := [Some 0], notified := [[Some 0]]\<rparr>"
  using handleAddUrl_cases [of "initial []" "\<lambda>t. take 8 t = ''https://''"]
    handleAddUrl_cases [of "(initial [])\<lparr>imageUrl := ''not a url''\<rparr>"
      "\<lambda>t. take 8 t = ''https://''"]
    handleAddUrl_cases [of "(initial [])\<lparr>imageUrl := ''https://example.com/a.jpg''\<rparr>"
      "\<lambda>t. take 8 t = ''https://''"]
  by (simp add: initial_def Let_def)

section \<open>The upload batch\<close>

subsection \<open>Validation and the loop\<close>

lemma validationError_Cons:
  "validationError (f # fs) e = (if fileOk f then validationError fs e else validationError fs (Some (validationMessage f)))"
  by (simp add: validationError_def split: list.split)

lemma validFiles_eq:
  "validFiles files s = (filter fileOk files, s\<lparr>error := validationError files (error s)\<rparr>)"
proof (induction files arbitrary: s)
  case Nil
  show ?case by (simp add: validationError_def)
next
  case (Cons f fs)
  show ?case
    by (simp add: Cons.IH validationError_Cons fileOk_def validationMessage_def not_le)
qed

lemma fileFails_head:
  "\<not> fileFails st k f \<Longrightarrow>
     upload st (uuidv4 st k @ ''_'' @ file_name f) f = Resolved None \<and>
     (\<exists>u. getPublicUrl st (uuidv4 st k @ ''_'' @ file_name f) = Some u \<and> u \<noteq> [])"
  by (auto simp: fileFails_def uploadFails_def urlFails_def storageKey_def split: option.splits)

lemma uploadLoop_frame:
  "uploadLoop st fs k acc s = (r, s') \<Longrightarrow>
     photos s' = photos s \<and> notified s' = notified s \<and> error s' = error s \<and>
     uploading s' = uploading s \<and> imageUrl s' = imageUrl s \<and> prefix (heap s) (heap s')"
proof (induction fs arbitrary: k acc s)
  case Nil
  then show ?case by auto
next
  case (Cons f fs)
  show ?case
  proof (cases "fileFails st k f")
    case True
    with Cons.prems show ?thesis
      by (auto simp: Let_def fileFails_def uploadFails_def urlFails_def storageKey_def
          split: upload_response.splits option.splits if_splits)
  next
    case False
    from fileFails_head [OF False] obtain u where
      up: "upload st (uuidv4 st k @ ''_'' @ file_name f) f = Resolved None" and
      gu: "getPublicUrl st (uuidv4 st k @ ''_'' @ file_name f) = Some u" and ne: "u \<noteq> []"
      by blast
    let ?s1 = "s\<lparr>uploads := uploads s @ [(uuidv4 st k @ ''_'' @ file_name f, f)],
                 heap := heap s @ [\<lparr>url = u, caption = Some []\<rparr>]\<rparr>"
    from Cons.prems up gu ne
    have "uploadLoop st fs (Suc k) (acc @ [Some (length (heap s))]) ?s1 = (r, s')"
      by (simp add: Let_def)
    from Cons.IH [OF this] show ?thesis
      by (auto dest: append_prefixD)
  qed
qed

lemma upt_shift: "map g [0..<Suc n] = g 0 # map (\<lambda>j. g (Suc j)) [0..<n]"
  by (simp add: upt_conv_Cons map_Suc_upt [symmetric] del: upt_Suc)

lemma upt_from: "[h..<Suc (h + n)] = h # [Suc h..<Suc (h + n)]"
  by (simp add: upt_conv_Cons del: upt_Suc)

lemma uploadLoop_success:
  "\<forall>j<length fs. \<not> fileFails st (k + j) (fs ! j) \<Longrightarrow>
   uploadLoop st fs k acc s =
     (Inr (acc @ map Some [length (heap s)..<length (heap s) + length fs]),
      s\<lparr>uploads := uploads s @ map (\<lambda>j. (storageKey st (k + j) (fs ! j), fs ! j)) [0..<length fs],
        heap := heap s @ map (\<lambda>j. \<lparr>url = publicUrlOf st (k + j) (fs ! j), caption = Some []\<rparr>) [0..<length fs]\<rparr>)"
proof (induction fs arbitrary: k acc s)
  case Nil
  show ?case by simp
next
  case (Cons f fs)
  from Cons.prems have "\<not> fileFails st k f" by fastforce
  from fileFails_head [OF this] obtain u where
    up: "upload st (uuidv4 st k @ ''_'' @ file_name f) f = Resolved None" and
    gu: "getPublicUrl st (uuidv4 st k @ ''_'' @ file_name f) = Some u" and ne: "u \<noteq> []"
    by blast
  from Cons.prems have rest: "\<forall>j<length fs. \<not> fileFails st (Suc k + j) (fs ! j)" by fastforce
  let ?s1 = "s\<lparr>uploads := uploads s @ [(uuidv4 st k @ ''_'' @ file_name f, f)],
               heap := heap s @ [\<lparr>url = u, caption = Some []\<rparr>]\<rparr>"
  have step: "uploadLoop st (f # fs) k acc s
      = uploadLoop st fs (Suc k) (acc @ [Some (length (heap s))]) ?s1"
    using up gu ne by (simp add: Let_def)
  have photo: "publicUrlOf st k f = u"
    using gu by (simp add: publicUrlOf_def storageKey_def)
  show ?case
    unfolding step Cons.IH [OF rest]
    by (simp add: upt_shift upt_from photo storageKey_def del: upt_Suc)
qed

lemma uploadLoop_failure:
  "n < length fs \<Longrightarrow> fileFails st (k + n) (fs ! n) \<Longrightarrow>
   \<forall>j<n. \<not> fileFails st (k + j) (fs ! j) \<Longrightarrow>
   \<exists>t s'. uploadLoop st fs k acc s = (Inl t, s') \<and>
     catchMessage t = failureMessage st (k + n) (fs ! n) \<and>
     uploads s' = uploads s @ map (\<lambda>j. (storageKey st (k + j) (fs ! j), fs ! j)) [0..<Suc n]"
proof (induction fs arbitrary: k acc s n)
  case Nil
  then show ?case by simp
next
  case (Cons f fs)
  show ?case
  proof (cases n)
    case 0
    with Cons.prems have "fileFails st k f" by simp
    then show ?thesis using 0
      by (auto simp: Let_def fileFails_def uploadFails_def urlFails_def storageKey_def
          failureMessage_def catchMessage_def
          split: upload_response.splits option.splits if_splits)
  next
    case (Suc m)
    with Cons.prems have "\<not> fileFails st k f" by fastforce
    from fileFails_head [OF this] obtain u where
      up: "upload st (uuidv4 st k @ ''_'' @ file_name f) f = Resolved None" and
      gu: "getPublicUrl st (uuidv4 st k @ ''_'' @ file_name f) = Some u" and ne: "u \<noteq> []"
      by blast
    let ?s1 = "s\<lparr>uploads := uploads s @ [(uuidv4 st k @ ''_'' @ file_name f, f)],
                 heap := heap s @ [\<lparr>url = u, caption = Some []\<rparr>]\<rparr>"
    have step: "uploadLoop st (f # fs) k acc s
        = uploadLoop st fs (Suc k) (acc @ [Some (length (heap s))]) ?s1"
      using up gu ne by (simp add: Let_def)
    from Cons.prems Suc have a: "m < length fs" and b: "fileFails st (Suc k + m) (fs ! m)"
      and c: "\<forall>j<m. \<not> fileFails st (Suc k + j) (fs ! j)" by fastforce+
    from Cons.IH [OF a b c, of "acc @ [Some (length (heap s))]" ?s1]
    obtain t s' where
      r: "uploadLoop st fs (Suc k) (acc @ [Some (length (heap s))]) ?s1 = (Inl t, s')" and
      m: "catchMessage t = failureMessage st (Suc k + m) (fs ! m)" and
      u: "uploads s' = uploads ?s1 @ map (\<lambda>j. (storageKey st (Suc k + j) (fs ! j), fs ! j)) [0..<Suc m]"
      by blast
    show ?thesis
      unfolding step r using m u Suc
      by (simp add: upt_shift [of _ "Suc m"] storageKey_def del: upt_Suc)
  qed
qed

lemma prefix_take: "prefix xs ys \<Longrightarrow> take (length xs) ys = xs"
  by (auto simp: prefix_def)

lemma view_prefix: "allocated h xs \<Longrightarrow> prefix h h' \<Longrightarrow> view h' xs = view h xs"
  by (induction xs) (auto simp: allocated_def view_def prefix_def nth_append split: option.splits)

lemma view_append: "view h (xs @ ys) = view h xs @ view h ys"
  by (simp add: view_def)

lemma view_fresh: "view (h @ ps) (map Some [length h..<length h + length ps]) = map Some ps"
  by (rule nth_equalityI) (simp_all add: view_def nth_append)

lemma uploadFiles_unfold:
  "uploadFiles st files s =
     (if filter fileOk files = [] then s\<lparr>error := validationError files (error s)\<rparr>
      else
        (case uploadLoop st (filter fileOk files) 0 []
                (s\<lparr>error := validationError files (error s), uploading := True\<rparr>) of
           (Inr uploadedPhotos, s3) \<Rightarrow>
             (updatePhotos (photos s @ uploadedPhotos) s3)\<lparr>uploading := False\<rparr>
         | (Inl uploadError, s3) \<Rightarrow>
             s3\<lparr>error := Some (catchMessage uploadError), uploading := False\<rparr>))"
  by (simp add: uploadFiles_def validFiles_eq)

lemma uploadFiles_success:
  assumes "filter fileOk files \<noteq> []"
    and "\<forall>k<length (filter fileOk files). \<not> fileFails st k (filter fileOk files ! k)"
  shows "uploadFiles st files s =
     s\<lparr>uploading := False,
       error := validationError files (error s),
       photos := photos s @ map Some [length (heap s)..<length (heap s) + length (filter fileOk files)],
       heap := heap s @ map (\<lambda>k. \<lparr>url = publicUrlOf st k (filter fileOk files ! k), caption = Some []\<rparr>)
                 [0..<length (filter fileOk files)],
       notified := notified s @
         [photos s @ map Some [length (heap s)..<length (heap s) + length (filter fileOk files)]],
       uploads := uploads s @ map (\<lambda>k. (storageKey st k (filter fileOk files ! k), filter fileOk files ! k))
                 [0..<length (filter fileOk files)]\<rparr>"
proof -
  from assms(2) have "\<forall>j<length (filter fileOk files). \<not> fileFails st (0 + j) (filter fileOk files ! j)"
    by simp
  from uploadLoop_success [OF this] assms(1) show ?thesis
    by (simp add: uploadFiles_unfold updatePhotos_def)
qed

lemma uploadFiles_failure:
  assumes "n < length (filter fileOk files)"
    and "fileFails st n (filter fileOk files ! n)"
    and "\<forall>j<n. \<not> fileFails st j (filter fileOk files ! j)"
  shows "photos (uploadFiles st files s) = photos s"
    and "notified (uploadFiles st files s) = notified s"
    and "uploading (uploadFiles st files s) = False"
    and "imageUrl (uploadFiles st files s) = imageUrl s"
    and "prefix (heap s) (heap (uploadFiles st files s))"
    and "error (uploadFiles st files s) = Some (failureMessage st n (filter fileOk files ! n))"
    and "uploads (uploadFiles st files s) =
           uploads s @ map (\<lambda>k. (storageKey st k (filter fileOk files ! k), filter fileOk files ! k)) [0..<Suc n]"
proof -
  let ?s1 = "s\<lparr>error := validationError files (error s), uploading := True\<rparr>"
  from assms(1) have ne: "filter fileOk files \<noteq> []" by auto
  from uploadLoop_failure [where k = 0 and acc = "[]" and s = ?s1, simplified, OF assms]
  obtain t s' where
    r: "uploadLoop st (filter fileOk files) 0 [] ?s1 = (Inl t, s')" and
    m: "catchMessage t = failureMessage st n (filter fileOk files ! n)" and
    u: "uploads s' = uploads s @ map (\<lambda>j. (storageKey st j (filter fileOk files ! j), filter fileOk files ! j)) [0..<n]
          @ [(storageKey st n (filter fileOk files ! n), filter fileOk files ! n)]"
    by auto
  from uploadLoop_frame [OF r] have f: "photos s' = photos s" "notified s' = notified s"
    "imageUrl s' = imageUrl s" "prefix (heap s) (heap s')" by simp_all
  have e: "uploadFiles st files s = s'\<lparr>error := Some (catchMessage t), uploading := False\<rparr>"
    using ne r by (simp add: uploadFiles_unfold)
  show "photos (uploadFiles st files s) = photos s" using e f by simp
  show "notified (uploadFiles st files s) = notified s" using e f by simp
  show "uploading (uploadFiles st files s) = False" using e by simp
  show "imageUrl (uploadFiles st files s) = imageUrl s" using e f by simp
  show "prefix (heap s) (heap (uploadFiles st files s))" using e f by simp
  show "error (uploadFiles st files s) = Some (failureMessage st n (filter fileOk files ! n))"
    using e m by simp
  show "uploads (uploadFiles st files s) =
           uploads s @ map (\<lambda>k. (storageKey st k (filter fileOk files ! k), filter fileOk files ! k)) [0..<Suc n]"
    using e u by simp
qed

lemma first_failure:
  assumes "\<exists>k<length fs. fileFails st k (fs ! k)"
  obtains n where "n < length fs" "fileFails st n (fs ! n)" "\<forall>j<n. \<not> fileFails st j (fs ! j)"
proof -
  from assms have "\<exists>k. k < length fs \<and> fileFails st k (fs ! k)" by blast
  then obtain n where "n < length fs \<and> fileFails st n (fs ! n)"
    and "\<forall>j<n. \<not> (j < length fs \<and> fileFails st j (fs ! j))"
    using exists_least_iff [of "\<lambda>k. k < length fs \<and> fileFails st k (fs ! k)"] by blast
  then show ?thesis using that by (metis less_trans)
qed

lemma map_nth_take: "m \<le> length fs \<Longrightarrow> map ((!) fs) [0..<m] = take m fs"
  by (rule nth_equalityI) simp_all

lemma new_uploads:
  assumes "us' = us @ map (\<lambda>k. (key k, fs ! k)) [0..<m]" "m \<le> length fs"
  shows "map snd (drop (length us) us') = take m fs"
proof -
  have "map snd (drop (length us) us') = map ((!) fs) [0..<m]"
    unfolding assms(1) by (simp add: o_def)
  then show ?thesis using assms(2) by (simp only: map_nth_take)
qed

subsection \<open>A failing batch\<close>

text \<open>
  C1. When the upload or the public-URL retrieval of some file of the batch (a file that
  passed validation) fails, the batch is aborted. The photo list holds the same
  references as before and every object that existed is untouched, so the list reads as
  before; \<open>onUpload\<close> is not called; \<open>uploading\<close> ends \<open>False\<close>; the error slot holds
  the message of the first failure; the files after the failing one are not sent to the
  storage service. \<open>uploadFiles\<close> yields a state on every input: the \<open>catch\<close> clause
  takes every throw of the loop, none leaves the handler.
\<close>

theorem upload_failure_aborts_batch:
  assumes "\<exists>k<length (filter fileOk files). fileFails st k (filter fileOk files ! k)"
  shows "photos (uploadFiles st files s) = photos s \<and>
         notified (uploadFiles st files s) = notified s \<and>
         uploading (uploadFiles st files s) = False \<and>
         imageUrl (uploadFiles st files s) = imageUrl s \<and>
         take (length (heap s)) (heap (uploadFiles st files s)) = heap s \<and>
         (allocated (heap s) (photos s) \<longrightarrow>
            view (heap (uploadFiles st files s)) (photos (uploadFiles st files s))
              = view (heap s) (photos s)) \<and>
         (\<exists>n<length (filter fileOk files).
            fileFails st n (filter fileOk files ! n) \<and>
            (\<forall>j<n. \<not> fileFails st j (filter fileOk files ! j)) \<and>
            error (uploadFiles st files s) = Some (failureMessage st n (filter fileOk files ! n)) \<and>
            map snd (drop (length (uploads s)) (uploads (uploadFiles st files s)))
              = take (Suc n) (filter fileOk files))"
proof -
  from assms obtain n where n: "n < length (filter fileOk files)"
    "fileFails st n (filter fileOk files ! n)" "\<forall>j<n. \<not> fileFails st j (filter fileOk files ! j)"
    by (rule first_failure)
  note f = uploadFiles_failure [OF n, of s]
  have u: "map snd (drop (length (uploads s)) (uploads (uploadFiles st files s)))
          = take (Suc n) (filter fileOk files)"
    using n(1) by (intro new_uploads [OF f(7)]) simp
  have v: "allocated (heap s) (photos s) \<longrightarrow>
      view (heap (uploadFiles st files s)) (photos (uploadFiles st files s)) = view (heap s) (photos s)"
    using view_prefix [OF _ f(5)] by (simp only: f(1)) blast
  have e: "\<exists>n<length (filter fileOk files).
            fileFails st n (filter fileOk files ! n) \<and>
            (\<forall>j<n. \<not> fileFails st j (filter fileOk files ! j)) \<and>
            error (uploadFiles st files s) = Some (failureMessage st n (filter fileOk files ! n)) \<and>
            map snd (drop (length (uploads s)) (uploads (uploadFiles st files s)))
              = take (Suc n) (filter fileOk files)"
    using n f(6) u by (intro exI [of _ n] conjI) assumption+
  show ?thesis
    using f(1-4) prefix_take [OF f(5)] v e by (intro conjI) assumption+
qed

theorem upload_failure_aborts_batch_witness:
  "(\<exists>k<length (filter fileOk [demoFile ''a.png'' ''image/png'' 1000, demoFile ''bad.png'' ''image/png'' 1000]).
      fileFails demoStorage k
        (filter fileOk [demoFile ''a.png'' ''image/png'' 1000, demoFile ''bad.png'' ''image/png'' 1000] ! k)) \<and>
   photos (uploadFiles demoStorage
       [demoFile ''a.png'' ''image/png'' 1000, demoFile ''bad.png'' ''image/png'' 1000]
       (mount (Some [Some 0]) [demoPhoto ''https://x.test/1.jpg''])) = [Some 0] \<and>
   notified (uploadFiles demoStorage
       [demoFile ''a.png'' ''image/png'' 1000, demoFile ''bad.png'' ''image/png'' 1000]
       (mount (Some [Some 0]) [demoPhoto ''https://x.test/1.jpg''])) = [] \<and>
   uploading (uploadFiles demoStorage
       [demoFile ''a.png'' ''image/png'' 1000, demoFile ''bad.png'' ''image/png'' 1000]
       (mount (Some [Some 0]) [demoPhoto ''https://x.test/1.jpg''])) = False \<and>
   error (uploadFiles demoStorage
       [demoFile ''a.png'' ''image/png'' 1000, demoFile ''bad.png'' ''image/png'' 1000]
       (mount (Some [Some 0]) [demoPhoto ''https://x.test/1.jpg''])) = Some ''quota exceeded''"
proof -
  let ?fs = "[demoFile ''a.png'' ''image/png'' 1000, demoFile ''bad.png'' ''image/png'' 1000]"
  have ok: "filter fileOk ?fs = ?fs"
    by (simp add: fileOk_def demoFile_def allowedTypes_def maxSize_def)
  have bad: "fileFails demoStorage 1 (?fs ! 1)"
    by (simp add: fileFails_def uploadFails_def demoStorage_def demoFile_def)
  have good: "\<not> fileFails demoStorage 0 (?fs ! 0)"
    by (simp add: fileFails_def uploadFails_def urlFails_def demoStorage_def demoFile_def)
  have h: "\<exists>k<length (filter fileOk ?fs). fileFails demoStorage k (filter fileOk ?fs ! k)"
    unfolding ok using bad by (intro exI [of _ 1]) simp
  have msg: "failureMessage demoStorage 1 (?fs ! 1) = ''quota exceeded''"
    by (simp add: failureMessage_def demoStorage_def demoFile_def)
  let ?s0 = "mount (Some [Some 0]) [demoPhoto ''https://x.test/1.jpg'']"
  note t = upload_failure_aborts_batch [OF h, of ?s0]
  note p = t [THEN conjunct1]
  note q = t [THEN conjunct2, THEN conjunct1]
  note r = t [THEN conjunct2, THEN conjunct2, THEN conjunct1]
  note x = t [THEN conjunct2, THEN conjunct2, THEN conjunct2, THEN conjunct2, THEN conjunct2,
    THEN conjunct2]
  from x obtain n where n: "n < length (filter fileOk ?fs)"
    "fileFails demoStorage n (filter fileOk ?fs ! n)"
    "error (uploadFiles demoStorage ?fs ?s0) = Some (failureMessage demoStorage n (filter fileOk ?fs ! n))"
    by (elim conjE exE)
  have "n \<noteq> 0"
  proof
    assume "n = 0"
    with n(2) good show False unfolding ok by simp
  qed
  moreover from n(1) have "n < 2" unfolding ok by simp
  ultimately have "n = 1" by arith
  with msg have "failureMessage demoStorage n (filter fileOk ?fs ! n) = ''quota exceeded''"
    unfolding ok by simp
  with n(3) have e: "error (uploadFiles demoStorage ?fs ?s0) = Some ''quota exceeded''" by simp
  have s0: "photos ?s0 = [Some 0]" "notified ?s0 = []" by (simp_all add: mount_def initial_def)
  show ?thesis
  proof (intro conjI)
    show "photos (uploadFiles demoStorage ?fs ?s0) = [Some 0]" using p s0(1) by (rule trans)
    show "notified (uploadFiles demoStorage ?fs ?s0) = []" using q s0(2) by (rule trans)
  qed (rule h r e)+
qed

lemma validationError_all_ok: "\<forall>f\<in>set files. fileOk f \<Longrightarrow> validationError files e = e"
  by (simp add: validationError_def filter_empty_conv [THEN iffD2])

lemma validationError_last:
  "validationError files e =
     (if filter (\<lambda>f. \<not> fileOk f) files = [] then e
      else Some (validationMessage (last (filter (\<lambda>f. \<not> fileOk f) files))))"
  by (simp add: validationError_def split: list.split)

subsection \<open>A successful batch\<close>

text \<open>
  C2. For a batch of N files, N at least 1, that all pass validation and whose uploads
  and public-URL retrievals all succeed: N new objects are created, one per file in the
  order of the files, each with the file's public URL and the empty caption; the photo
  list is the prior list followed by the references to them, so it is N longer and reads
  as the prior entries followed by the new ones; \<open>onUpload\<close> is called with that whole
  list; \<open>uploading\<close> ends \<open>False\<close> and the error slot is not touched.
\<close>

theorem upload_success_appends:
  assumes "files \<noteq> []" and "\<forall>f\<in>set files. fileOk f"
    and "\<forall>k<length files. \<not> fileFails st k (files ! k)"
  shows "photos (uploadFiles st files s)
           = photos s @ map Some [length (heap s)..<length (heap s) + length files] \<and>
         heap (uploadFiles st files s)
           = heap s @ map (\<lambda>k. \<lparr>url = publicUrlOf st k (files ! k), caption = Some []\<rparr>)
                        [0..<length files] \<and>
         notified (uploadFiles st files s) = notified s @ [photos (uploadFiles st files s)] \<and>
         uploading (uploadFiles st files s) = False \<and>
         error (uploadFiles st files s) = error s \<and>
         length (photos (uploadFiles st files s)) = length (photos s) + length files \<and>
         (allocated (heap s) (photos s) \<longrightarrow>
            view (heap (uploadFiles st files s)) (photos (uploadFiles st files s))
              = view (heap s) (photos s) @
                map (\<lambda>k. Some \<lparr>url = publicUrlOf st k (files ! k), caption = Some []\<rparr>)
                  [0..<length files])"
proof -
  let ?ps = "map (\<lambda>k. \<lparr>url = publicUrlOf st k (files ! k), caption = Some []\<rparr>) [0..<length files]"
  from assms(2) have ok: "filter fileOk files = files" by (simp add: filter_id_conv)
  from assms(1) have ne: "filter fileOk files \<noteq> []" unfolding ok .
  from assms(3) have su: "\<forall>k<length (filter fileOk files). \<not> fileFails st k (filter fileOk files ! k)"
    unfolding ok .
  note eq = uploadFiles_success [OF ne su, of s, unfolded ok validationError_all_ok [OF assms(2)]]
  have p: "photos (uploadFiles st files s)
           = photos s @ map Some [length (heap s)..<length (heap s) + length files]"
    unfolding eq by simp
  have h: "heap (uploadFiles st files s) = heap s @ ?ps"
    unfolding eq by simp
  have n: "notified (uploadFiles st files s) = notified s @ [photos (uploadFiles st files s)]"
    unfolding eq by simp
  have u: "uploading (uploadFiles st files s) = False"
    unfolding eq by simp
  have e: "error (uploadFiles st files s) = error s"
    unfolding eq by simp
  have l: "length (photos (uploadFiles st files s)) = length (photos s) + length files"
    unfolding p by simp
  have v: "allocated (heap s) (photos s) \<longrightarrow>
            view (heap (uploadFiles st files s)) (photos (uploadFiles st files s))
              = view (heap s) (photos s) @
                map (\<lambda>k. Some \<lparr>url = publicUrlOf st k (files ! k), caption = Some []\<rparr>)
                  [0..<length files]"
  proof
    assume a: "allocated (heap s) (photos s)"
    have "view (heap s @ ?ps) (photos s) = view (heap s) (photos s)"
      using a by (rule view_prefix) simp
    moreover have "view (heap s @ ?ps) (map Some [length (heap s)..<length (heap s) + length files])
        = map Some ?ps"
      using view_fresh [of "heap s" ?ps] by simp
    ultimately show "view (heap (uploadFiles st files s)) (photos (uploadFiles st files s))
              = view (heap s) (photos s) @
                map (\<lambda>k. Some \<lparr>url = publicUrlOf st k (files ! k), caption = Some []\<rparr>)
                  [0..<length files]"
      unfolding p h view_append by (simp add: o_def)
  qed
  from p h n u e l v show ?thesis by (intro conjI) assumption+
qed

theorem upload_success_appends_witness:
  "[demoFile ''a.png'' ''image/png'' 1000, demoFile ''b.webp'' ''image/webp'' 5242880] \<noteq> [] \<and>
   list_all fileOk [demoFile ''a.png'' ''image/png'' 1000, demoFile ''b.webp'' ''image/webp'' 5242880] \<and>
   list_all (\<lambda>k. \<not> fileFails demoStorage k
       ([demoFile ''a.png'' ''image/png'' 1000, demoFile ''b.webp'' ''image/webp'' 5242880] ! k)) [0, 1] \<and>
   photos (uploadFiles demoStorage
       [demoFile ''a.png'' ''image/png'' 1000, demoFile ''b.webp'' ''image/webp'' 5242880]
       (mount (Some [Some 0]) [demoPhoto ''https://x.test/1.jpg''])) = [Some 0, Some 1, Some 2] \<and>
   heap (uploadFiles demoStorage
       [demoFile ''a.png'' ''image/png'' 1000, demoFile ''b.webp'' ''image/webp'' 5242880]
       (mount (Some [Some 0]) [demoPhoto ''https://x.test/1.jpg'']))
     = [demoPhoto ''https://x.test/1.jpg'', demoPhoto ''https://cdn.test/id_a.png'',
        demoPhoto ''https://cdn.test/idx_b.webp''] \<and>
   notified (uploadFiles demoStorage
       [demoFile ''a.png'' ''image/png'' 1000, demoFile ''b.webp'' ''image/webp'' 5242880]
       (mount (Some [Some 0]) [demoPhoto ''https://x.test/1.jpg''])) = [[Some 0, Some 1, Some 2]]"
proof -
  let ?fs = "[demoFile ''a.png'' ''image/png'' 1000, demoFile ''b.webp'' ''image/webp'' 5242880]"
  let ?s0 = "mount (Some [Some 0]) [demoPhoto ''https://x.test/1.jpg'']"
  have h1: "?fs \<noteq> []" by simp
  have ok: "list_all fileOk ?fs"
    by (simp add: fileOk_def demoFile_def allowedTypes_def maxSize_def)
  then have h2: "\<forall>f\<in>set ?fs. fileOk f" by (simp only: list_all_iff)
  have g0: "\<not> fileFails demoStorage 0 (?fs ! 0)"
    by (simp add: fileFails_def uploadFails_def urlFails_def demoStorage_def demoFile_def)
  have g1: "\<not> fileFails demoStorage 1 (?fs ! 1)"
    by (simp add: fileFails_def uploadFails_def urlFails_def demoStorage_def demoFile_def)
  have h3: "\<forall>k<length ?fs. \<not> fileFails demoStorage k (?fs ! k)"
  proof (intro allI impI)
    fix k assume "k < length ?fs"
    then have "k = 0 \<or> k = 1" by auto
    with g0 g1 show "\<not> fileFails demoStorage k (?fs ! k)" by (elim disjE) simp_all
  qed
  have s0: "photos ?s0 = [Some 0]" "heap ?s0 = [demoPhoto ''https://x.test/1.jpg'']" "notified ?s0 = []"
    by (simp_all add: mount_def initial_def)
  have u0: "publicUrlOf demoStorage 0 (?fs ! 0) = ''https://cdn.test/id_a.png''"
    by (simp add: publicUrlOf_def storageKey_def demoStorage_def demoFile_def)
  have u1: "publicUrlOf demoStorage 1 (?fs ! 1) = ''https://cdn.test/idx_b.webp''"
    by (simp add: publicUrlOf_def storageKey_def demoStorage_def demoFile_def)
  have idx: "[0..<length ?fs] = [0, 1]" "[length (heap ?s0)..<length (heap ?s0) + length ?fs] = [1, 2]"
    unfolding s0 by (simp_all add: upt_conv_Cons)
  note t = upload_success_appends [OF h1 h2 h3, of ?s0]
  have p: "photos (uploadFiles demoStorage ?fs ?s0) = [Some 0, Some 1, Some 2]"
    unfolding t [THEN conjunct1] idx s0 by simp
  have h: "heap (uploadFiles demoStorage ?fs ?s0)
     = [demoPhoto ''https://x.test/1.jpg'', demoPhoto ''https://cdn.test/id_a.png'',
        demoPhoto ''https://cdn.test/idx_b.webp'']"
    unfolding t [THEN conjunct2, THEN conjunct1] idx s0 using u0 u1 by (simp add: demoPhoto_def)
  have n: "notified (uploadFiles demoStorage ?fs ?s0) = [[Some 0, Some 1, Some 2]]"
    unfolding t [THEN conjunct2, THEN conjunct2, THEN conjunct1] p s0 by simp
  have g: "list_all (\<lambda>k. \<not> fileFails demoStorage k (?fs ! k)) [0, 1]"
    using g0 g1 by simp
  from h1 ok g p h n show ?thesis by (intro conjI) assumption+
qed

subsection \<open>Rejected files\<close>

lemma validFiles_all_ok: "validFiles (filter fileOk files) s = (filter fileOk files, s)"
  by (simp add: validFiles_eq validationError_all_ok)

lemma uploadFiles_filtered:
  "uploadFiles st files s
     = uploadFiles st (filter fileOk files) (s\<lparr>error := validationError files (error s)\<rparr>)"
  by (simp add: uploadFiles_unfold validationError_all_ok split: prod.split sum.split)

lemma uploadFiles_uploads:
  "\<exists>m\<le>length (filter fileOk files).
     map snd (drop (length (uploads s)) (uploads (uploadFiles st files s)))
       = take m (filter fileOk files)"
proof (cases "filter fileOk files = []")
  case True
  then show ?thesis by (simp add: uploadFiles_unfold)
next
  case ne: False
  show ?thesis
  proof (cases "\<exists>k<length (filter fileOk files). fileFails st k (filter fileOk files ! k)")
    case True
    then obtain n where n: "n < length (filter fileOk files)"
      "fileFails st n (filter fileOk files ! n)" "\<forall>j<n. \<not> fileFails st j (filter fileOk files ! j)"
      by (rule first_failure)
    from n(1) have "Suc n \<le> length (filter fileOk files)" by simp
    from new_uploads [OF uploadFiles_failure(7) [OF n, of s] this] this
    show ?thesis by blast
  next
    case False
    then have "\<forall>k<length (filter fileOk files). \<not> fileFails st k (filter fileOk files ! k)"
      by blast
    note eq = uploadFiles_success [OF ne this, of s]
    have "uploads (uploadFiles st files s) = uploads s @
        map (\<lambda>k. (storageKey st k (filter fileOk files ! k), filter fileOk files ! k))
          [0..<length (filter fileOk files)]"
      unfolding eq by simp
    from new_uploads [OF this order_refl] show ?thesis by blast
  qed
qed

lemma uploadFiles_length:
  "length (photos (uploadFiles st files s)) \<le> length (photos s) + length (filter fileOk files)"
proof (cases "filter fileOk files = []")
  case True
  then show ?thesis by (simp add: uploadFiles_unfold)
next
  case ne: False
  show ?thesis
  proof (cases "\<exists>k<length (filter fileOk files). fileFails st k (filter fileOk files ! k)")
    case True
    then obtain n where n: "n < length (filter fileOk files)"
      "fileFails st n (filter fileOk files ! n)" "\<forall>j<n. \<not> fileFails st j (filter fileOk files ! j)"
      by (rule first_failure)
    show ?thesis unfolding uploadFiles_failure(1) [OF n, of s] by simp
  next
    case False
    then have "\<forall>k<length (filter fileOk files). \<not> fileFails st k (filter fileOk files ! k)"
      by blast
    note eq = uploadFiles_success [OF ne this, of s]
    show ?thesis unfolding eq by simp
  qed
qed

lemma uploadFiles_error_kept:
  assumes "\<forall>k<length (filter fileOk files). \<not> fileFails st k (filter fileOk files ! k)"
  shows "error (uploadFiles st files s) = validationError files (error s)"
proof (cases "filter fileOk files = []")
  case True
  then show ?thesis by (simp add: uploadFiles_unfold)
next
  case False
  note eq = uploadFiles_success [OF False assms, of s]
  show ?thesis unfolding eq by simp
qed

text \<open>
  C3. Validation of a selection. The files kept are exactly those with an allowed MIME
  type and a size of at most 5 MiB, in their order. Each other file overwrites the error
  slot with a message that names it (its type is checked first), so after the filter the
  slot holds the message of the last rejected file, or its old content when none was
  rejected; it still does when the handler ends unless an upload of an accepted file
  failed. The rejected files have no other effect: the handler does what it does on the
  accepted files alone, only accepted files are sent to the storage service, and the list
  grows by at most one entry per accepted file. When no file is accepted nothing but the
  error slot changes: no upload, \<open>uploading\<close> as it was, the list and the parent
  untouched.
\<close>

theorem validation_excludes_files:
  "validFiles files s = (filter fileOk files, s\<lparr>error := validationError files (error s)\<rparr>) \<and>
   (\<not> fileOk f \<longrightarrow>
      validFiles (f # files) s = validFiles files (s\<lparr>error := Some (validationMessage f)\<rparr>) \<and>
      (validationMessage f = ''Unsupported file type: '' @ file_name f \<or>
       validationMessage f = ''File too large: '' @ file_name f @ '' (Max: 5MB)'')) \<and>
   validationError files (error s) =
     (if filter (\<lambda>f. \<not> fileOk f) files = [] then error s
      else Some (validationMessage (last (filter (\<lambda>f. \<not> fileOk f) files)))) \<and>
   uploadFiles st files s
     = uploadFiles st (filter fileOk files) (s\<lparr>error := validationError files (error s)\<rparr>) \<and>
   (\<exists>m\<le>length (filter fileOk files).
      map snd (drop (length (uploads s)) (uploads (uploadFiles st files s)))
        = take m (filter fileOk files)) \<and>
   length (photos (uploadFiles st files s)) \<le> length (photos s) + length (filter fileOk files) \<and>
   ((\<forall>k<length (filter fileOk files). \<not> fileFails st k (filter fileOk files ! k)) \<longrightarrow>
      error (uploadFiles st files s) = validationError files (error s)) \<and>
   (filter fileOk files = [] \<longrightarrow>
      uploadFiles st files s = s\<lparr>error := validationError files (error s)\<rparr>)"
proof -
  have a: "\<not> fileOk f \<longrightarrow>
      validFiles (f # files) s = validFiles files (s\<lparr>error := Some (validationMessage f)\<rparr>) \<and>
      (validationMessage f = ''Unsupported file type: '' @ file_name f \<or>
       validationMessage f = ''File too large: '' @ file_name f @ '' (Max: 5MB)'')"
    by (simp add: fileOk_def validationMessage_def not_le)
  have b: "filter fileOk files = [] \<longrightarrow>
      uploadFiles st files s = s\<lparr>error := validationError files (error s)\<rparr>"
    by (simp add: uploadFiles_unfold)
  have c: "(\<forall>k<length (filter fileOk files). \<not> fileFails st k (filter fileOk files ! k)) \<longrightarrow>
      error (uploadFiles st files s) = validationError files (error s)"
    using uploadFiles_error_kept by blast
  from validFiles_eq a validationError_last uploadFiles_filtered uploadFiles_uploads
    uploadFiles_length c b
  show ?thesis by (intro conjI) assumption+
qed

theorem validation_excludes_files_witness:
  "\<not> fileOk (demoFile ''x.gif'' ''image/gif'' 10) \<and>
   \<not> fileOk (demoFile ''big.jpg'' ''image/jpeg'' 5242881) \<and>
   filter fileOk [demoFile ''x.gif'' ''image/gif'' 10, demoFile ''big.jpg'' ''image/jpeg'' 5242881] = [] \<and>
   uploadFiles demoStorage
       [demoFile ''x.gif'' ''image/gif'' 10, demoFile ''big.jpg'' ''image/jpeg'' 5242881]
       (mount (Some [Some 0]) [demoPhoto ''https://x.test/1.jpg''])
     = (mount (Some [Some 0]) [demoPhoto ''https://x.test/1.jpg''])
         \<lparr>error := Some ''File too large: big.jpg (Max: 5MB)''\<rparr> \<and>
   uploadFiles demoStorage
       [demoFile ''big.jpg'' ''image/jpeg'' 5242881, demoFile ''x.gif'' ''image/gif'' 10]
       (mount (Some [Some 0]) [demoPhoto ''https://x.test/1.jpg''])
     = (mount (Some [Some 0]) [demoPhoto ''https://x.test/1.jpg''])
         \<lparr>error := Some ''Unsupported file type: x.gif''\<rparr> \<and>
   uploadFiles demoStorage
       [demoFile ''x.gif'' ''image/gif'' 10, demoFile ''a.png'' ''image/png'' 1000,
        demoFile ''big.jpg'' ''image/jpeg'' 5242881]
       (mount (Some [Some 0]) [demoPhoto ''https://x.test/1.jpg''])
     = uploadFiles demoStorage [demoFile ''a.png'' ''image/png'' 1000]
         ((mount (Some [Some 0]) [demoPhoto ''https://x.test/1.jpg''])
            \<lparr>error := Some ''File too large: big.jpg (Max: 5MB)''\<rparr>)"
proof -
  let ?gif = "demoFile ''x.gif'' ''image/gif'' 10"
  let ?big = "demoFile ''big.jpg'' ''image/jpeg'' 5242881"
  let ?png = "demoFile ''a.png'' ''image/png'' 1000"
  let ?s0 = "mount (Some [Some 0]) [demoPhoto ''https://x.test/1.jpg'']"
  have g: "\<not> fileOk ?gif" by (simp add: fileOk_def demoFile_def allowedTypes_def)
  have b: "\<not> fileOk ?big" by (simp add: fileOk_def demoFile_def allowedTypes_def maxSize_def)
  have p: "fileOk ?png" by (simp add: fileOk_def demoFile_def allowedTypes_def maxSize_def)
  have mb: "validationMessage ?big = ''File too large: big.jpg (Max: 5MB)''"
    by (simp add: validationMessage_def demoFile_def allowedTypes_def)
  have mg: "validationMessage ?gif = ''Unsupported file type: x.gif''"
    by (simp add: validationMessage_def demoFile_def allowedTypes_def)
  have f1: "filter fileOk [?gif, ?big] = []" using g b by simp
  have f2: "filter fileOk [?big, ?gif] = []" using g b by simp
  have f3: "filter fileOk [?gif, ?png, ?big] = [?png]" using g b p by simp
  have e1: "validationError [?gif, ?big] (error ?s0) = Some ''File too large: big.jpg (Max: 5MB)''"
    using g b by (simp add: validationError_def mb)
  have e2: "validationError [?big, ?gif] (error ?s0) = Some ''Unsupported file type: x.gif''"
    using g b by (simp add: validationError_def mg)
  have e3: "validationError [?gif, ?png, ?big] (error ?s0) = Some ''File too large: big.jpg (Max: 5MB)''"
    using g b p by (simp add: validationError_def mb)
  note t1 = validation_excludes_files [of "[?gif, ?big]" ?s0 ?gif demoStorage]
  note t2 = validation_excludes_files [of "[?big, ?gif]" ?s0 ?gif demoStorage]
  note t3 = validation_excludes_files [of "[?gif, ?png, ?big]" ?s0 ?gif demoStorage]
  note last1 = t1 [THEN conjunct2, THEN conjunct2, THEN conjunct2, THEN conjunct2, THEN conjunct2,
      THEN conjunct2, THEN conjunct2, rule_format, OF f1, unfolded e1]
  note last2 = t2 [THEN conjunct2, THEN conjunct2, THEN conjunct2, THEN conjunct2, THEN conjunct2,
      THEN conjunct2, THEN conjunct2, rule_format, OF f2, unfolded e2]
  note filt3 = t3 [THEN conjunct2, THEN conjunct2, THEN conjunct2, THEN conjunct1, unfolded e3 f3]
  from g b f1 last1 last2 filt3 show ?thesis by (intro conjI) assumption+
qed

section \<open>The parent sees every mutation\<close>

lemma synced_error: "synced (s\<lparr>error := e\<rparr>) s' = synced s s'"
  by (simp add: synced_def)

lemma synced_refl: "synced s (s\<lparr>error := e\<rparr>)"
  by (simp add: synced_def)

lemma uploadFiles_synced: "synced s (uploadFiles st files s)"
proof (cases "filter fileOk files = []")
  case True
  then show ?thesis by (simp add: uploadFiles_unfold synced_def)
next
  case False
  let ?s1 = "s\<lparr>error := validationError files (error s), uploading := True\<rparr>"
  obtain r s3 where r: "uploadLoop st (filter fileOk files) 0 [] ?s1 = (r, s3)"
    by (cases "uploadLoop st (filter fileOk files) 0 [] ?s1")
  from uploadLoop_frame [OF r] have f: "photos s3 = photos s" "notified s3 = notified s"
    "take (length (heap s)) (heap s3) = heap s"
    by (simp_all add: prefix_take [of "heap s" "heap s3", simplified])
  show ?thesis
  proof (cases r)
    case (Inl t)
    with False r have "uploadFiles st files s = s3\<lparr>error := Some (catchMessage t), uploading := False\<rparr>"
      by (simp add: uploadFiles_unfold)
    then show ?thesis using f by (simp add: synced_def)
  next
    case (Inr ups)
    with False r have "uploadFiles st files s = (updatePhotos (photos s @ ups) s3)\<lparr>uploading := False\<rparr>"
      by (simp add: uploadFiles_unfold)
    then show ?thesis using f by (simp add: synced_def updatePhotos_def)
  qed
qed

lemma handleImageUpload_synced: "synced s (handleImageUpload st fs s)"
proof -
  have "synced (s\<lparr>error := None\<rparr>) (handleImageUpload st fs s)"
    by (simp add: handleImageUpload_def Let_def uploadFiles_synced split: option.split)
      (simp add: synced_def)
  then show ?thesis by (simp only: synced_error)
qed

lemma handleAddUrl_synced: "synced s (handleAddUrl parses s)"
  by (simp add: handleAddUrl_def synced_def updatePhotos_def)

lemma removePhoto_notifies:
  "notified (removePhoto index s) = notified s @ [photos (removePhoto index s)]"
  by (simp add: removePhoto_def updatePhotos_def)

lemma movePhoto_synced: "synced s (movePhoto from to s)"
  by (simp add: movePhoto_def synced_def updatePhotos_def split: prod.split)

lemma handleDragEnd_synced: "synced s (handleDragEnd event s)"
  by (simp add: handleDragEnd_def synced_def updatePhotos_def Let_def)

lemma onCaptionChange_notifies:
  "onCaptionChange index newCaption s = Inr s' \<Longrightarrow> notified s' = notified s @ [photos s']"
  by (auto simp: onCaptionChange_def updatePhotos_def Let_def split: option.splits if_splits)

lemma onCaptionChange_synced:
  "(case onCaptionChange index newCaption s of Inl e \<Rightarrow> True
    | Inr s' \<Rightarrow> notified s' = notified s @ [photos s'])"
  by (simp add: onCaptionChange_notifies split: sum.split)

text \<open>
  C5. On every path that mutates the photo list, the parent receives the component's new
  internal list itself. The upload handlers, add-by-URL, the button move and the drag
  handler either leave the list, the parent and the existing objects alone, or call
  \<open>onUpload\<close> once, last, with the list the state now holds; removal and a caption
  edit that does not throw always call it so. The argument is the complete list, and the
  parent reads the same objects as the component does.
\<close>

theorem every_mutation_notifies_parent:
  "synced s (uploadFiles st files s) \<and>
   synced s (handleImageUpload st selection s) \<and>
   synced s (handleAddUrl parses s) \<and>
   notified (removePhoto index s) = notified s @ [photos (removePhoto index s)] \<and>
   synced s (movePhoto from to s) \<and>
   synced s (handleDragEnd event s) \<and>
   (case onCaptionChange index newCaption s of Inl e \<Rightarrow> True
    | Inr s' \<Rightarrow> notified s' = notified s @ [photos s'])"
  using uploadFiles_synced handleImageUpload_synced handleAddUrl_synced removePhoto_notifies
    movePhoto_synced handleDragEnd_synced onCaptionChange_synced
  by (intro conjI) assumption+

theorem every_mutation_notifies_parent_witness:
  "synced (mount (Some [Some 0]) [demoPhoto ''https://x.test/1.jpg''])
     (uploadFiles demoStorage [demoFile ''a.png'' ''image/png'' 1000]
        (mount (Some [Some 0]) [demoPhoto ''https://x.test/1.jpg''])) \<and>
   notified (removePhoto 0 (mount (Some [Some 0]) [demoPhoto ''https://x.test/1.jpg'']))
     = notified (mount (Some [Some 0]) [demoPhoto ''https://x.test/1.jpg'']) @
       [photos (removePhoto 0 (mount (Some [Some 0]) [demoPhoto ''https://x.test/1.jpg'']))] \<and>
   synced (mount (Some [Some 0]) [demoPhoto ''https://x.test/1.jpg''])
     (movePhoto 0 1 (mount (Some [Some 0]) [demoPhoto ''https://x.test/1.jpg'']))"
  using every_mutation_notifies_parent
    [of "mount (Some [Some 0]) [demoPhoto ''https://x.test/1.jpg'']" demoStorage
      "[demoFile ''a.png'' ''image/png'' 1000]" None "\<lambda>t. True" 0 0 1
      "\<lparr>active_id = IdString ''photo-0'', over_id = None\<rparr>" "''sea''"]
  by (intro conjI) (elim conjE, assumption)+

section \<open>Reordering\<close>

subsection \<open>Splices and moves inside the list\<close>

lemma splice_remove_one:
  "i < length xs \<Longrightarrow> splice xs (int i) 1 [] = ([xs ! i], take i xs @ drop (Suc i) xs)"
proof -
  assume a: "i < length xs"
  then have "take (Suc 0) (drop i xs) = [xs ! i]"
    by (simp add: take_Suc_conv_app_nth)
  with a show ?thesis by (simp add: splice_def Let_def)
qed

lemma splice_insert_one:
  "j \<le> length ys \<Longrightarrow> splice ys (int j) 0 [x] = ([], take j ys @ [x] @ drop j ys)"
  by (simp add: splice_def Let_def)

lemma length_moveEntry:
  "i < length xs \<Longrightarrow> j < length xs \<Longrightarrow> length (moveEntry xs i j) = length xs"
  by (auto simp: moveEntry_def Let_def min_def)

lemma nth_moveEntry:
  "i < length xs \<Longrightarrow> j < length xs \<Longrightarrow> k < length xs \<Longrightarrow>
   moveEntry xs i j ! k =
     (if k = j then xs ! i
      else if i \<le> k \<and> k < j then xs ! Suc k
      else if j < k \<and> k \<le> i then xs ! (k - 1)
      else xs ! k)"
  by (auto simp: moveEntry_def Let_def nth_append min_def)

lemma moveEntry_same: "i < length xs \<Longrightarrow> moveEntry xs i i = xs"
  by (rule nth_equalityI) (simp_all add: length_moveEntry nth_moveEntry)

lemma moveEntry_step_up:
  assumes "i < j" "j < length xs"
  shows "moveEntry (moveEntry xs i (Suc i)) (Suc i) j = moveEntry xs i j"
proof (rule nth_equalityI)
  from assms show "length (moveEntry (moveEntry xs i (Suc i)) (Suc i) j) = length (moveEntry xs i j)"
    by (simp add: length_moveEntry)
next
  fix k assume "k < length (moveEntry (moveEntry xs i (Suc i)) (Suc i) j)"
  with assms have k: "k < length xs" by (simp add: length_moveEntry)
  from assms k show "moveEntry (moveEntry xs i (Suc i)) (Suc i) j ! k = moveEntry xs i j ! k"
    by (simp add: length_moveEntry nth_moveEntry)
qed

lemma moveEntry_step_down:
  assumes "j < i" "i < length xs"
  shows "moveEntry (moveEntry xs i (i - 1)) (i - 1) j = moveEntry xs i j"
proof (rule nth_equalityI)
  from assms show "length (moveEntry (moveEntry xs i (i - 1)) (i - 1) j) = length (moveEntry xs i j)"
    by (simp add: length_moveEntry)
next
  fix k assume "k < length (moveEntry (moveEntry xs i (i - 1)) (i - 1) j)"
  with assms have k: "k < length xs" by (simp add: length_moveEntry)
  from assms k show "moveEntry (moveEntry xs i (i - 1)) (i - 1) j ! k = moveEntry xs i j ! k"
    by (auto simp: length_moveEntry nth_moveEntry)
qed

lemma moveEntry_up_down:
  assumes "0 < i" "i < length xs"
  shows "moveEntry (moveEntry xs i (i - 1)) (i - 1) i = xs"
proof (rule nth_equalityI)
  from assms show "length (moveEntry (moveEntry xs i (i - 1)) (i - 1) i) = length xs"
    by (simp add: length_moveEntry)
next
  fix k assume "k < length (moveEntry (moveEntry xs i (i - 1)) (i - 1) i)"
  with assms have k: "k < length xs" by (simp add: length_moveEntry)
  from assms k show "moveEntry (moveEntry xs i (i - 1)) (i - 1) i ! k = xs ! k"
    by (auto simp: length_moveEntry nth_moveEntry)
qed

lemma movePhoto_in_range:
  assumes "i < length (photos s)" "j < length (photos s)"
  shows "movePhoto (int i) (int j) s = updatePhotos (moveEntry (photos s) i j) s"
proof -
  from assms have "j \<le> length (take i (photos s) @ drop (Suc i) (photos s))" by simp
  from splice_insert_one [OF this] splice_remove_one [OF assms(1)] assms(2)
  show ?thesis by (simp add: movePhoto_def firstOf_def moveEntry_def Let_def)
qed

lemma arrayMove_in_range:
  assumes "i < length xs" "j < length xs"
  shows "arrayMove xs (int i) (int j) = moveEntry xs i j"
proof -
  from assms have "j \<le> length (take i xs @ drop (Suc i) xs)" by simp
  from splice_insert_one [OF this] splice_remove_one [OF assms(1)]
  show ?thesis by (simp add: arrayMove_def firstOf_def moveEntry_def Let_def)
qed

lemma digitChar_inj: "a < 10 \<Longrightarrow> b < 10 \<Longrightarrow> digitChar a = digitChar b \<Longrightarrow> a = b"
proof -
  assume a: "a < 10" and b: "b < 10" and e: "digitChar a = digitChar b"
  have c: "\<And>d. d < 10 \<Longrightarrow> d \<in> {0, 1, 2, 3, 4, 5, 6, 7, 8, 9::nat}" by auto
  from c [OF a] c [OF b] e show "a = b"
    by (auto simp: digitChar_def)
qed

lemma toDecimal_nonempty: "toDecimal n \<noteq> []"
  by (subst toDecimal.simps) simp

lemma toDecimal_inj: "toDecimal m = toDecimal n \<Longrightarrow> m = n"
proof (induction m arbitrary: n rule: toDecimal.induct)
  case (1 m)
  show ?case
  proof (cases "m < 10")
    case small: True
    show ?thesis
    proof (cases "n < 10")
      case True
      with small "1.prems" show ?thesis
        by (simp add: toDecimal.simps [of m] toDecimal.simps [of n] digitChar_inj)
    next
      case False
      with small "1.prems" toDecimal_nonempty [of "n div 10"] show ?thesis
        by (simp add: toDecimal.simps [of m] toDecimal.simps [of n])
    qed
  next
    case big: False
    show ?thesis
    proof (cases "n < 10")
      case True
      with big "1.prems" toDecimal_nonempty [of "m div 10"] show ?thesis
        by (simp add: toDecimal.simps [of m] toDecimal.simps [of n])
    next
      case False
      with big "1.prems" have e: "toDecimal (m div 10) = toDecimal (n div 10)"
        and d: "digitChar (m mod 10) = digitChar (n mod 10)"
        by (simp_all add: toDecimal.simps [of m] toDecimal.simps [of n])
      from "1.IH" [OF big e] have q: "m div 10 = n div 10" .
      from d have r: "m mod 10 = n mod 10" by (intro digitChar_inj) simp_all
      from q r show ?thesis by (metis div_mult_mod_eq)
    qed
  qed
qed

lemma photoId_inj: "photoId i = photoId j \<Longrightarrow> i = j"
  by (simp add: photoId_def toDecimal_inj)

lemma findIndexFrom_at:
  "b \<le> t \<Longrightarrow> t < b + length xs \<Longrightarrow> (\<And>x k. p x k = (k = t)) \<Longrightarrow>
     findIndexFrom p b xs = int t"
proof (induction xs arbitrary: b)
  case Nil
  then show ?case by simp
next
  case (Cons x xs)
  show ?case
  proof (cases "b = t")
    case True
    with Cons.prems(3) show ?thesis by simp
  next
    case False
    with Cons.prems have "Suc b \<le> t" "t < Suc b + length xs" by simp_all
    from Cons.IH [OF this Cons.prems(3)] False Cons.prems(3) show ?thesis by simp
  qed
qed

lemma findIndex_photoId:
  "i < length xs \<Longrightarrow> findIndex (\<lambda>_ k. photoId k = photoId i) xs = int i"
  unfolding findIndex_def
  by (rule findIndexFrom_at) (auto dest: photoId_inj)

subsection \<open>Drag reorder and the move buttons\<close>

lemma singleSteps_up:
  "i + d < length (photos s) \<Longrightarrow>
     photos (singleSteps (int i) (int (i + d)) s) = moveEntry (photos s) i (i + d) \<and>
     heap (singleSteps (int i) (int (i + d)) s) = heap s"
proof (induction d arbitrary: i s)
  case 0
  then show ?case by (simp add: singleSteps.simps [of "int i" "int i"] moveEntry_same)
next
  case (Suc d)
  let ?s1 = "movePhoto (int i) (int (Suc i)) s"
  from Suc.prems have r: "i < length (photos s)" "Suc i < length (photos s)" by simp_all
  have m: "?s1 = updatePhotos (moveEntry (photos s) i (Suc i)) s"
    using r by (rule movePhoto_in_range)
  have p: "photos ?s1 = moveEntry (photos s) i (Suc i)" and h: "heap ?s1 = heap s"
    unfolding m by (simp_all add: updatePhotos_def)
  have l: "length (photos ?s1) = length (photos s)"
    unfolding p using r by (rule length_moveEntry)
  have u: "singleSteps (int i) (int (i + Suc d)) s = singleSteps (int (Suc i)) (int (Suc i + d)) ?s1"
    by (subst singleSteps.simps) (simp add: add.commute)
  from Suc.prems l have "Suc i + d < length (photos ?s1)" by simp
  from Suc.IH [OF this] have
    "photos (singleSteps (int (Suc i)) (int (Suc i + d)) ?s1) = moveEntry (photos ?s1) (Suc i) (Suc i + d)"
    "heap (singleSteps (int (Suc i)) (int (Suc i + d)) ?s1) = heap ?s1" by simp_all
  moreover have "moveEntry (moveEntry (photos s) i (Suc i)) (Suc i) (i + Suc d)
      = moveEntry (photos s) i (i + Suc d)"
    using Suc.prems by (intro moveEntry_step_up) simp_all
  ultimately show ?case unfolding u p h by simp
qed

lemma int_pred: "0 < i \<Longrightarrow> int i - 1 = int (i - 1)"
  by (cases i) simp_all

lemma singleSteps_down:
  "d \<le> i \<Longrightarrow> i < length (photos s) \<Longrightarrow>
     photos (singleSteps (int i) (int (i - d)) s) = moveEntry (photos s) i (i - d) \<and>
     heap (singleSteps (int i) (int (i - d)) s) = heap s"
proof (induction d arbitrary: i s)
  case 0
  then show ?case by (simp add: singleSteps.simps [of "int i" "int i"] moveEntry_same)
next
  case (Suc d)
  from Suc.prems obtain i' where i': "i = Suc i'" by (cases i) simp_all
  let ?s1 = "movePhoto (int (Suc i')) (int i') s"
  from Suc.prems have r: "Suc i' < length (photos s)" "i' < length (photos s)"
    unfolding i' by simp_all
  have m: "?s1 = updatePhotos (moveEntry (photos s) (Suc i') i') s"
    using r by (rule movePhoto_in_range)
  have p: "photos ?s1 = moveEntry (photos s) (Suc i') i'" and h: "heap ?s1 = heap s"
    unfolding m by (simp_all add: updatePhotos_def)
  have l: "length (photos ?s1) = length (photos s)"
    unfolding p using r by (rule length_moveEntry)
  have lt: "int (i' - d) < int (Suc i')" by simp
  have u: "singleSteps (int (Suc i')) (int (i' - d)) s = singleSteps (int i') (int (i' - d)) ?s1"
    by (subst singleSteps.simps) (simp add: lt)
  from Suc.prems l have "d \<le> i'" "i' < length (photos ?s1)" unfolding i' by simp_all
  from Suc.IH [OF this] have
    ih: "photos (singleSteps (int i') (int (i' - d)) ?s1) = moveEntry (photos ?s1) i' (i' - d)"
    "heap (singleSteps (int i') (int (i' - d)) ?s1) = heap ?s1" by simp_all
  have "moveEntry (moveEntry (photos s) (Suc i') (Suc i' - 1)) (Suc i' - 1) (i' - d)
      = moveEntry (photos s) (Suc i') (i' - d)"
    using r by (intro moveEntry_step_down) simp_all
  then have st: "moveEntry (moveEntry (photos s) (Suc i') i') i' (i' - d)
      = moveEntry (photos s) (Suc i') (i' - d)" by simp
  have g: "photos (singleSteps (int (Suc i')) (int (i' - d)) s) = moveEntry (photos s) (Suc i') (i' - d) \<and>
      heap (singleSteps (int (Suc i')) (int (i' - d)) s) = heap s"
    unfolding u ih p h st by (intro conjI refl)
  show ?case unfolding i' diff_Suc_Suc by (rule g)
qed

lemma singleSteps_moveEntry:
  assumes "i < length (photos s)" "j < length (photos s)"
  shows "photos (singleSteps (int i) (int j) s) = moveEntry (photos s) i j"
    and "heap (singleSteps (int i) (int j) s) = heap s"
proof -
  have "photos (singleSteps (int i) (int j) s) = moveEntry (photos s) i j \<and>
        heap (singleSteps (int i) (int j) s) = heap s"
  proof (cases "i \<le> j")
    case True
    then obtain d where d: "j = i + d" by (auto simp: le_iff_add)
    from assms(2) show ?thesis unfolding d by (rule singleSteps_up)
  next
    case False
    then have e: "i - (i - j) = j" and "i - j \<le> i" by simp_all
    from singleSteps_down [OF this(2) assms(1)] show ?thesis unfolding e .
  qed
  then show "photos (singleSteps (int i) (int j) s) = moveEntry (photos s) i j"
    and "heap (singleSteps (int i) (int j) s) = heap s" by simp_all
qed

lemma handleDragEnd_in_range:
  assumes "i < length (photos s)" "j < length (photos s)"
  shows "photos (handleDragEnd \<lparr>active_id = IdString (photoId i),
             over_id = Some (IdString (photoId j))\<rparr> s) = moveEntry (photos s) i j"
    and "heap (handleDragEnd \<lparr>active_id = IdString (photoId i),
             over_id = Some (IdString (photoId j))\<rparr> s) = heap s"
proof -
  show "photos (handleDragEnd \<lparr>active_id = IdString (photoId i),
             over_id = Some (IdString (photoId j))\<rparr> s) = moveEntry (photos s) i j"
  proof (cases "i = j")
    case True
    with assms show ?thesis by (simp add: handleDragEnd_def moveEntry_same)
  next
    case False
    then have "photoId i \<noteq> photoId j" by (auto dest: photoId_inj)
    then show ?thesis
      using assms
      by (simp add: handleDragEnd_def Let_def findIndex_photoId
          arrayMove_in_range updatePhotos_def)
  qed
  show "heap (handleDragEnd \<lparr>active_id = IdString (photoId i),
             over_id = Some (IdString (photoId j))\<rparr> s) = heap s"
    by (simp add: handleDragEnd_def Let_def updatePhotos_def)
qed

text \<open>
  C7. For every photo list and all positions \<open>i\<close> and \<open>j\<close> inside it, dragging the
  entry at \<open>i\<close> onto the entry at \<open>j\<close> leaves the same list (and the same objects) as
  moving the entry from \<open>i\<close> to \<open>j\<close> one position at a time with the buttons. Both are
  the list with the entry at \<open>i\<close> taken out and put back at \<open>j\<close>, which is what
  \<open>arrayMove\<close> computes.
\<close>

theorem drag_reorder_equals_single_steps:
  assumes "i < length (photos s)" and "j < length (photos s)"
  shows "photos (handleDragEnd \<lparr>active_id = IdString (photoId i),
             over_id = Some (IdString (photoId j))\<rparr> s)
           = photos (singleSteps (int i) (int j) s) \<and>
         heap (handleDragEnd \<lparr>active_id = IdString (photoId i),
             over_id = Some (IdString (photoId j))\<rparr> s)
           = heap (singleSteps (int i) (int j) s) \<and>
         arrayMove (photos s) (int i) (int j) = photos (singleSteps (int i) (int j) s) \<and>
         arrayMove (photos s) (int i) (int j) = moveEntry (photos s) i j"
  unfolding handleDragEnd_in_range [OF assms] singleSteps_moveEntry [OF assms]
    arrayMove_in_range [OF assms]
  by (intro conjI refl)

text \<open>
  C8. For every photo list and every index strictly between 0 and its length,
  \<open>movePhoto(index, index - 1)\<close> followed by \<open>movePhoto(index - 1, index)\<close> gives back
  the original list; the objects are not touched.
\<close>

theorem move_up_then_down_restores:
  assumes "0 < index" and "index < length (photos s)"
  shows "photos (movePhoto (int index - 1) (int index) (movePhoto (int index) (int index - 1) s))
           = photos s \<and>
         heap (movePhoto (int index - 1) (int index) (movePhoto (int index) (int index - 1) s))
           = heap s"
proof -
  let ?s1 = "movePhoto (int index) (int (index - 1)) s"
  from assms have r: "index < length (photos s)" "index - 1 < length (photos s)" by simp_all
  have m: "?s1 = updatePhotos (moveEntry (photos s) index (index - 1)) s"
    using r by (rule movePhoto_in_range)
  have p: "photos ?s1 = moveEntry (photos s) index (index - 1)" and h: "heap ?s1 = heap s"
    unfolding m by (simp_all add: updatePhotos_def)
  have l: "length (photos ?s1) = length (photos s)"
    unfolding p using r by (rule length_moveEntry)
  from r l have r1: "index - 1 < length (photos ?s1)" "index < length (photos ?s1)" by simp_all
  have m2: "movePhoto (int (index - 1)) (int index) ?s1
      = updatePhotos (moveEntry (photos ?s1) (index - 1) index) ?s1"
    using r1 by (rule movePhoto_in_range)
  from assms have i1: "int index - 1 = int (index - 1)" by simp
  have u: "moveEntry (moveEntry (photos s) index (index - 1)) (index - 1) index = photos s"
    using assms by (rule moveEntry_up_down)
  have e: "movePhoto (int index - 1) (int index) (movePhoto (int index) (int index - 1) s)
      = updatePhotos (photos s) ?s1"
    unfolding i1 m2 p u ..
  have "photos (updatePhotos (photos s) ?s1) = photos s"
    by (simp add: updatePhotos_def)
  moreover have "heap (updatePhotos (photos s) ?s1) = heap ?s1"
    by (simp add: updatePhotos_def)
  ultimately show ?thesis
    unfolding e [unfolded i1] i1 h by (intro conjI)
qed

theorem drag_reorder_equals_single_steps_witness:
  "0 < length (photos (mount (Some [Some 0, Some 1, Some 2])
         [demoPhoto ''https://x.test/a.jpg'', demoPhoto ''https://x.test/b.jpg'',
          demoPhoto ''https://x.test/c.jpg''])) \<and>
   2 < length (photos (mount (Some [Some 0, Some 1, Some 2])
         [demoPhoto ''https://x.test/a.jpg'', demoPhoto ''https://x.test/b.jpg'',
          demoPhoto ''https://x.test/c.jpg''])) \<and>
   photos (handleDragEnd \<lparr>active_id = IdString (photoId 0), over_id = Some (IdString (photoId 2))\<rparr>
      (mount (Some [Some 0, Some 1, Some 2])
         [demoPhoto ''https://x.test/a.jpg'', demoPhoto ''https://x.test/b.jpg'',
          demoPhoto ''https://x.test/c.jpg'']))
     = photos (singleSteps (int 0) (int 2)
         (mount (Some [Some 0, Some 1, Some 2])
            [demoPhoto ''https://x.test/a.jpg'', demoPhoto ''https://x.test/b.jpg'',
             demoPhoto ''https://x.test/c.jpg''])) \<and>
   photos (singleSteps (int 0) (int 2)
      (mount (Some [Some 0, Some 1, Some 2])
         [demoPhoto ''https://x.test/a.jpg'', demoPhoto ''https://x.test/b.jpg'',
          demoPhoto ''https://x.test/c.jpg''])) = [Some 1, Some 2, Some 0]"
proof -
  let ?s0 = "mount (Some [Some 0, Some 1, Some 2])
         [demoPhoto ''https://x.test/a.jpg'', demoPhoto ''https://x.test/b.jpg'',
          demoPhoto ''https://x.test/c.jpg'']"
  have l: "length (photos ?s0) = 3" by (simp add: mount_def initial_def)
  have a: "0 < length (photos ?s0)" and b: "2 < length (photos ?s0)" unfolding l by simp_all
  have v: "photos (singleSteps (int 0) (int 2) ?s0) = [Some 1, Some 2, Some 0]"
    by code_simp
  from a b drag_reorder_equals_single_steps [OF a b, THEN conjunct1] v
  show ?thesis by (intro conjI) assumption+
qed

theorem move_up_then_down_restores_witness:
  "(0::nat) < 1 \<and>
   1 < length (photos (mount (Some [Some 0, Some 1, Some 2])
         [demoPhoto ''https://x.test/a.jpg'', demoPhoto ''https://x.test/b.jpg'',
          demoPhoto ''https://x.test/c.jpg''])) \<and>
   photos (movePhoto (int 1) (int 1 - 1)
      (mount (Some [Some 0, Some 1, Some 2])
         [demoPhoto ''https://x.test/a.jpg'', demoPhoto ''https://x.test/b.jpg'',
          demoPhoto ''https://x.test/c.jpg''])) = [Some 1, Some 0, Some 2] \<and>
   photos (movePhoto (int 1 - 1) (int 1) (movePhoto (int 1) (int 1 - 1)
      (mount (Some [Some 0, Some 1, Some 2])
         [demoPhoto ''https://x.test/a.jpg'', demoPhoto ''https://x.test/b.jpg'',
          demoPhoto ''https://x.test/c.jpg''])))
     = photos (mount (Some [Some 0, Some 1, Some 2])
         [demoPhoto ''https://x.test/a.jpg'', demoPhoto ''https://x.test/b.jpg'',
          demoPhoto ''https://x.test/c.jpg''])"
proof -
  let ?s0 = "mount (Some [Some 0, Some 1, Some 2])
         [demoPhoto ''https://x.test/a.jpg'', demoPhoto ''https://x.test/b.jpg'',
          demoPhoto ''https://x.test/c.jpg'']"
  have l: "length (photos ?s0) = 3" by (simp add: mount_def initial_def)
  have a: "(0::nat) < 1" by simp
  have b: "1 < length (photos ?s0)" unfolding l by simp
  have v: "photos (movePhoto (int 1) (int 1 - 1) ?s0) = [Some 1, Some 0, Some 2]"
    by code_simp
  from a b v move_up_then_down_restores [OF a b, THEN conjunct1]
  show ?thesis by (intro conjI) assumption+
qed

subsection \<open>Dropping on itself and outside every target\<close>

lemma handleDragEnd_on_itself:
  "over_id event = Some (active_id event) \<Longrightarrow> handleDragEnd event s = s"
  by (simp add: handleDragEnd_def)

lemma findIndexFrom_none: "(\<And>x k. \<not> p x k) \<Longrightarrow> findIndexFrom p b xs = - 1"
  by (induction xs arbitrary: b) simp_all

lemma findIndex_never: "findIndex (\<lambda>_ k. False) xs = - 1"
  by (simp add: findIndex_def findIndexFrom_none)

lemma handleDragEnd_outside_notifies:
  "over_id event = None \<Longrightarrow>
     notified (handleDragEnd event s) = notified s @ [photos (handleDragEnd event s)]"
  by (simp add: handleDragEnd_def Let_def updatePhotos_def)

lemma arrayMove_to_end:
  assumes "i < length xs"
  shows "arrayMove xs (int i) (- 1) = take i xs @ drop (Suc i) xs @ [xs ! i]"
proof -
  from assms have "length xs - 1 \<le> length (take i xs @ drop (Suc i) xs)" by simp
  from splice_insert_one [OF this] splice_remove_one [OF assms] assms
  show ?thesis
    by (simp add: arrayMove_def firstOf_def Let_def int_pred)
qed

lemma handleDragEnd_outside:
  assumes "i < length (photos s)"
  shows "handleDragEnd \<lparr>active_id = IdString (photoId i), over_id = None\<rparr> s
     = updatePhotos (take i (photos s) @ drop (Suc i) (photos s) @ [photos s ! i]) s"
  using assms
  by (simp add: handleDragEnd_def Let_def findIndex_photoId arrayMove_to_end findIndex_never)

text \<open>
  C6. A drop on the dragged item itself changes nothing (\<open>handleDragEnd_on_itself\<close>).
  A drop outside every droppable target does: \<open>over\<close> is \<open>null\<close>, so \<open>over?.id\<close> is
  \<open>undefined\<close>, which differs from every id, and the guard \<open>active.id !== over?.id\<close>
  lets the event through. The destination index is then \<open>-1\<close>, \<open>arrayMove\<close> puts the
  dragged entry last, and \<open>onUpload\<close> is called (\<open>handleDragEnd_outside\<close>). On the
  list of two photos, dragging the first one outside swaps them and notifies the parent.
\<close>

theorem handleDragEnd_outside_moves_and_notifies:
  "handleDragEnd \<lparr>active_id = IdString ''photo-0'', over_id = None\<rparr>
     (mount (Some [Some 0, Some 1])
        [demoPhoto ''https://x.test/a.jpg'', demoPhoto ''https://x.test/b.jpg''])
   = (mount (Some [Some 0, Some 1])
        [demoPhoto ''https://x.test/a.jpg'', demoPhoto ''https://x.test/b.jpg''])
       \<lparr>photos := [Some 1, Some 0], notified := [[Some 1, Some 0]]\<rparr>"
  by code_simp

section \<open>Caption edits\<close>

lemma onCaptionChange_in_range:
  assumes "i < length (photos s)" and "photos s ! i = Some a"
  shows "onCaptionChange (int i) c s =
     Inr (updatePhotos (photos s) (s\<lparr>heap := (heap s)[a := (heap s ! a)\<lparr>caption := Some c\<rparr>]\<rparr>))"
  using assms by (simp add: onCaptionChange_def Let_def)

lemma onCaptionChange_throws:
  "index < 0 \<or> int (length (photos s)) \<le> index \<Longrightarrow> onCaptionChange index c s = Inl TypeError"
  by (auto simp: onCaptionChange_def Let_def)

lemma onCaptionChange_frame:
  assumes "i < length (photos s)" and "photos s ! i = Some a" and "a < length (heap s)"
    and "onCaptionChange (int i) c s = Inr s'"
  shows "photos s' = photos s"
    and "length (heap s') = length (heap s)"
    and "map url (heap s') = map url (heap s)"
    and "caption (heap s' ! a) = Some c"
    and "b \<noteq> a \<Longrightarrow> heap s' ! b = heap s ! b"
    and "notified s' = notified s @ [photos s']"
proof -
  from onCaptionChange_in_range [OF assms(1,2), of c] assms(4)
  have e: "s' = updatePhotos (photos s) (s\<lparr>heap := (heap s)[a := (heap s ! a)\<lparr>caption := Some c\<rparr>]\<rparr>)"
    by simp
  show "photos s' = photos s" unfolding e by (simp add: updatePhotos_def)
  show "length (heap s') = length (heap s)" unfolding e by (simp add: updatePhotos_def)
  show "map url (heap s') = map url (heap s)"
    unfolding e using assms(3) by (simp add: updatePhotos_def map_update list_update_same_conv)
  show "caption (heap s' ! a) = Some c" unfolding e using assms(3) by (simp add: updatePhotos_def)
  show "b \<noteq> a \<Longrightarrow> heap s' ! b = heap s ! b" unfolding e by (simp add: updatePhotos_def)
  show "notified s' = notified s @ [photos s']" unfolding e by (simp add: updatePhotos_def)
qed

text \<open>
  C9. A caption edit at an in-range index writes to the object the entry refers to. The
  list, its length and order, every url and the captions of all other objects stay, and
  the parent is called with the list (\<open>onCaptionChange_frame\<close>). An entry that refers
  to the same object changes with it: seeded with one photo object twice, an edit of the
  caption at index 0 changes the caption read at index 1 as well.
\<close>

theorem onCaptionChange_changes_aliased_entry:
  "view [demoPhoto ''https://x.test/a.jpg''] [Some 0, Some 0]
     = [Some \<lparr>url = ''https://x.test/a.jpg'', caption = Some []\<rparr>,
        Some \<lparr>url = ''https://x.test/a.jpg'', caption = Some []\<rparr>] \<and>
   onCaptionChange 0 ''sea'' (mount (Some [Some 0, Some 0]) [demoPhoto ''https://x.test/a.jpg''])
     = Inr ((mount (Some [Some 0, Some 0])
               [\<lparr>url = ''https://x.test/a.jpg'', caption = Some ''sea''\<rparr>])
            \<lparr>notified := [[Some 0, Some 0]]\<rparr>) \<and>
   view [\<lparr>url = ''https://x.test/a.jpg'', caption = Some ''sea''\<rparr>] [Some 0, Some 0]
     = [Some \<lparr>url = ''https://x.test/a.jpg'', caption = Some ''sea''\<rparr>,
        Some \<lparr>url = ''https://x.test/a.jpg'', caption = Some ''sea''\<rparr>]"
  by code_simp

section \<open>References stay inside the store\<close>

text \<open>
  No handler stores a reference to an object that does not exist: when the list refers
  into the store before a handler runs, it does afterwards.
\<close>

lemma allocated_iff:
  "allocated h xs = (\<forall>a. Some a \<in> set xs \<longrightarrow> a < length h)"
  by (auto simp: allocated_def list_all_iff split: option.splits)

lemma allocated_grow: "allocated h xs \<Longrightarrow> prefix h h' \<Longrightarrow> allocated h' xs"
  by (auto simp: allocated_iff prefix_def)

lemma splice_set:
  "set (fst (splice xs start n items)) \<subseteq> set xs"
  "set (snd (splice xs start n items)) \<subseteq> set xs \<union> set items"
  by (auto simp: splice_def Let_def dest: in_set_takeD in_set_dropD)

lemma firstOf_set: "firstOf removed = Some a \<Longrightarrow> Some a \<in> set removed"
  by (cases removed) (simp_all add: firstOf_def)

lemma arrayMove_set: "Some a \<in> set (arrayMove xs i j) \<Longrightarrow> Some a \<in> set xs"
proof -
  assume m: "Some a \<in> set (arrayMove xs i j)"
  obtain removed rest where s: "splice xs i 1 [] = (removed, rest)" by (cases "splice xs i 1 []")
  from splice_set [of xs i 1 "[]"] s have r: "set removed \<subseteq> set xs" "set rest \<subseteq> set xs"
    by simp_all
  let ?start = "if j < 0 then int (length xs) + j else j"
  from m s have "Some a \<in> set (snd (splice rest ?start 0 [firstOf removed]))"
    by (simp add: arrayMove_def Let_def)
  with splice_set(2) [of rest ?start 0 "[firstOf removed]"]
  have "Some a \<in> set rest \<or> firstOf removed = Some a" by auto
  with r firstOf_set show ?thesis by auto
qed

lemma movePhoto_set: "Some a \<in> set (photos (movePhoto i j s)) \<Longrightarrow> Some a \<in> set (photos s)"
proof -
  assume m: "Some a \<in> set (photos (movePhoto i j s))"
  show ?thesis
  proof (cases "j < 0 \<or> j \<ge> int (length (photos s))")
    case True
    with m show ?thesis by (simp add: movePhoto_def)
  next
    case False
    obtain removed rest where s: "splice (photos s) i 1 [] = (removed, rest)"
      by (cases "splice (photos s) i 1 []")
    from splice_set [of "photos s" i 1 "[]"] s
    have r: "set removed \<subseteq> set (photos s)" "set rest \<subseteq> set (photos s)" by simp_all
    obtain q updated2 where t: "splice rest j 0 [firstOf removed] = (q, updated2)"
      by (cases "splice rest j 0 [firstOf removed]")
    from m s t False have "Some a \<in> set updated2"
      by (simp add: movePhoto_def updatePhotos_def)
    with splice_set(2) [of rest j 0 "[firstOf removed]"] t
    have "Some a \<in> set rest \<or> firstOf removed = Some a" by auto
    with r firstOf_set show ?thesis by auto
  qed
qed

lemma allocated_kept:
  assumes "allocated (heap s) (photos s)"
  shows "allocated (heap (uploadFiles st files s)) (photos (uploadFiles st files s))"
    and "allocated (heap (handleAddUrl parses s)) (photos (handleAddUrl parses s))"
    and "allocated (heap (removePhoto index s)) (photos (removePhoto index s))"
    and "allocated (heap (movePhoto i j s)) (photos (movePhoto i j s))"
    and "allocated (heap (handleDragEnd event s)) (photos (handleDragEnd event s))"
    and "onCaptionChange index c s = Inr s' \<Longrightarrow> allocated (heap s') (photos s')"
proof -
  show "allocated (heap (uploadFiles st files s)) (photos (uploadFiles st files s))"
  proof (cases "filter fileOk files = []")
    case True
    with assms show ?thesis by (simp add: uploadFiles_unfold)
  next
    case ne: False
    show ?thesis
    proof (cases "\<exists>k<length (filter fileOk files). fileFails st k (filter fileOk files ! k)")
      case True
      then obtain n where n: "n < length (filter fileOk files)"
        "fileFails st n (filter fileOk files ! n)" "\<forall>j<n. \<not> fileFails st j (filter fileOk files ! j)"
        by (rule first_failure)
      note f = uploadFiles_failure [OF n, of s]
      from allocated_grow [OF assms f(5)] show ?thesis unfolding f(1) .
    next
      case False
      then have "\<forall>k<length (filter fileOk files). \<not> fileFails st k (filter fileOk files ! k)"
        by blast
      note eq = uploadFiles_success [OF ne this, of s]
      from assms show ?thesis unfolding eq by (auto simp: allocated_iff)
    qed
  qed
  from assms show "allocated (heap (handleAddUrl parses s)) (photos (handleAddUrl parses s))"
    by (auto simp: handleAddUrl_def updatePhotos_def allocated_iff)
  from assms show "allocated (heap (removePhoto index s)) (photos (removePhoto index s))"
    by (auto simp: removePhoto_def updatePhotos_def allocated_iff in_set_enumerate_eq
        dest: nth_mem [of _ "photos s"])
  have "heap (movePhoto i j s) = heap s"
    by (simp add: movePhoto_def updatePhotos_def split: prod.split)
  with assms movePhoto_set [of _ i j s]
  show "allocated (heap (movePhoto i j s)) (photos (movePhoto i j s))"
    by (auto simp: allocated_iff)
  from assms arrayMove_set
  show "allocated (heap (handleDragEnd event s)) (photos (handleDragEnd event s))"
    by (auto simp: handleDragEnd_def updatePhotos_def Let_def allocated_iff)
  from assms show "onCaptionChange index c s = Inr s' \<Longrightarrow> allocated (heap s') (photos s')"
    by (auto simp: onCaptionChange_def updatePhotos_def Let_def allocated_iff
        split: option.splits if_splits)
qed

end
